theory Spec2Isabelle
  imports Complex_Main "HOL-Library.Log_Nat"
begin

section \<open>Strings\<close>

text \<open>
  A Python \<open>str\<close> is modelled as a \<open>string\<close> whose characters are read as the code
  points 0 to 255. The predicates below are those of Python 3 on that range.
\<close>

definition is_space :: "char \<Rightarrow> bool" where
  "is_space c = ((of_char c :: nat) \<in> {9, 10, 11, 12, 13, 28, 29, 30, 31, 32, 133, 160})"

definition lower_char :: "char \<Rightarrow> char" where
  "lower_char c =
     (let n = (of_char c :: nat)
      in if (65 \<le> n \<and> n \<le> 90) \<or> (192 \<le> n \<and> n \<le> 222 \<and> n \<noteq> 215)
         then char_of (n + 32) else c)"

definition upper_ascii :: "char \<Rightarrow> char" where
  "upper_ascii c =
     (let n = (of_char c :: nat)
      in if 97 \<le> n \<and> n \<le> 122 then char_of (n - 32) else c)"

definition is_alpha_ascii :: "char \<Rightarrow> bool" where
  "is_alpha_ascii c =
     (let n = (of_char c :: nat) in (65 \<le> n \<and> n \<le> 90) \<or> (97 \<le> n \<and> n \<le> 122))"

text \<open>The characters matched by \<open>\w\<close> in a \<open>str\<close> pattern.\<close>

definition is_word :: "char \<Rightarrow> bool" where
  "is_word c =
     (let n = (of_char c :: nat)
      in (48 \<le> n \<and> n \<le> 57) \<or> (65 \<le> n \<and> n \<le> 90) \<or> n = 95 \<or> (97 \<le> n \<and> n \<le> 122)
         \<or> n \<in> {170, 178, 179, 181, 185, 186, 188, 189, 190}
         \<or> (192 \<le> n \<and> n \<le> 255 \<and> n \<noteq> 215 \<and> n \<noteq> 247))"

definition lower :: "string \<Rightarrow> string" where
  "lower s = map lower_char s"

definition lstrip :: "string \<Rightarrow> string" where
  "lstrip s = dropWhile is_space s"

definition rstrip :: "string \<Rightarrow> string" where
  "rstrip s = rev (dropWhile is_space (rev s))"

definition strip :: "string \<Rightarrow> string" where
  "strip s = rstrip (lstrip s)"

definition startswith :: "string \<Rightarrow> string \<Rightarrow> bool" where
  "startswith s pfx = (take (length pfx) s = pfx)"

text \<open>
  \<open>str.title()\<close>: the first letter of every run of letters in upper case, the others in
  lower case. The program applies it to the four kinship words only, so the letters are
  those of ASCII.
\<close>

fun title_from :: "bool \<Rightarrow> string \<Rightarrow> string" where
  "title_from prev [] = []"
| "title_from prev (c # cs) =
     (if is_alpha_ascii c
      then (if prev then lower_char c else upper_ascii c) # title_from True cs
      else c # title_from False cs)"

definition title :: "string \<Rightarrow> string" where
  "title s = title_from False s"

text \<open>\<open>str(n)\<close> of a natural number, in decimal.\<close>

function str_nat :: "nat \<Rightarrow> string" where
  "str_nat n =
     (if n < 10 then [char_of (48 + n)]
      else str_nat (n div 10) @ [char_of (48 + n mod 10)])"
  by pat_completeness auto
termination
  by (relation "measure id") auto

declare str_nat.simps [simp del]

section \<open>Configuration\<close>

definition MODEL :: string where
  "MODEL = ''phi4-mini:latest''"

text \<open>The double nearest to \<open>0.60\<close>, as an exact fraction.\<close>

definition CONF_THRESHOLD :: rat where
  "CONF_THRESHOLD = 5404319552844595 / 9007199254740992"

definition MAX_RETRIES :: nat where
  "MAX_RETRIES = 2"

definition PROMPT :: string where
  \<open>PROMPT = CHR 0x0A # concat (map (\<lambda>l. l @ [CHR 0x0A]) [
    ''You are a strict JSON generator for a personal second-brain sorter.'',
    '''',
    ''Task: classify the user text into one of: people, projects, ideas, admin.'',
    ''Then extract the relevant fields for that category.'',
    '''',
    ''Return ONLY valid JSON. No markdown. No commentary.'',
    '''',
    ''Schema:'',
    ''{'',
    ''  "category": "people|projects|ideas|admin|unknown",'',
    ''  "confidence": 0.0-1.0,'',
    ''  "fields": { ...category-specific fields... },'',
    ''  "title": "short human-friendly name"'',
    ''}'',
    '''',
    ''Category field rules:'',
    '''',
    ''people.fields:'',
    ''- name: string (required; if missing -> category "unknown" with low confidence)'',
    ''- context: string (optional)'',
    ''- follow_up: string (optional; specific next follow-up)'',
    ''- last_contact: string (optional; ISO date YYYY-MM-DD if clearly present)'',
    '''',
    ''projects.fields:'',
    ''- name: string (required)'',
    ''- status: active|waiting|blocked|someday|done (default active)'',
    ''- next_action: string (optional but preferred; must be concrete if possible)'',
    ''- notes: string (optional)'',
    '''',
    ''ideas.fields:'',
    ''- title: string (required)'',
    ''- one_liner: string (optional; <= 25 words)'',
    ''- notes: string (optional)'',
    '''',
    ''admin.fields:'',
    ''- task: string (required)'',
    ''- due_date: string (optional; ISO date YYYY-MM-DD if clear)'',
    ''- status: open|done (default open)'',
    '''',
    ''If uncertain, set category="unknown" and confidence <= 0.50.'',
    '''',
    ''User text:''])\<close>

section \<open>JSON values and the library functions the program calls\<close>

text \<open>
  The values \<open>json.loads\<close> produces. An object is the list of its items, with the keys
  distinct; a float is given by its exact value (NaN and the infinities, which are not
  JSON, are left out).
\<close>

datatype json =
    JNull
  | JBool bool
  | JInt int
  | JFloat rat
  | JStr string
  | JArr "json list"
  | JObj "(string \<times> json) list"

text \<open>What \<open>subprocess.run\<close> gives: the exit code with the decoded standard output and
  standard error, or an exception of its own (the program absent, say) with its message.\<close>

datatype proc = Exited int string string | RunRaised string

text \<open>
  The alias table loaded at start-up, and the library and the outside world as the
  program sees them: \<open>json.loads\<close> (\<open>None\<close> when it raises), \<open>json.dumps\<close>, \<open>float\<close>
  on a string (\<open>None\<close> when it raises \<open>ValueError\<close>), and the external process, whose
  answer may depend on how many times it has been run before. The value of an alias is
  whatever the alias file holds for the key: \<open>load_aliases\<close> puts the keys in lower case
  and keeps the values as they are, so a value may be a number, a list or an object as
  well as a string.
\<close>

record env =
  ALIASES :: "string \<rightharpoonup> json"
  json_loads :: "string \<Rightarrow> json option"
  json_dumps :: "json \<Rightarrow> string"
  float_of_str :: "string \<Rightarrow> rat option"
  subprocess_run :: "nat \<Rightarrow> string \<Rightarrow> proc"

section \<open>load_aliases\<close>

text \<open>
  The argument is what \<open>json.load\<close> gives for the alias file, \<open>None\<close> when opening or
  parsing it raises. An object (its keys distinct, in the order of the file) gives the
  table of its values under the keys in lower case, a later entry replacing an earlier
  one with the same key in lower case; anything else has no \<open>items\<close>, the exception is
  caught, and the table is empty.
\<close>

definition load_aliases :: "json option \<Rightarrow> (string \<rightharpoonup> json)" where
  "load_aliases data =
     (case data of
        Some (JObj kvs) \<Rightarrow> map_of (rev (map (\<lambda>(k, v). (lower k, v)) kvs))
      | _ \<Rightarrow> Map.empty)"

section \<open>infer_person_name\<close>

text \<open>\<open>\b\<close> between the end of \<open>seen\<close> (read backwards) and the start of \<open>rest\<close>.\<close>

definition word_boundary :: "string \<Rightarrow> string \<Rightarrow> bool" where
  "word_boundary seen rest =
     ((case seen of [] \<Rightarrow> False | c # _ \<Rightarrow> is_word c)
      \<noteq> (case rest of [] \<Rightarrow> False | c # _ \<Rightarrow> is_word c))"

definition kinship :: "string list" where
  "kinship = [''mom'', ''mother'', ''dad'', ''father'']"

text \<open>The alternatives of \<open>(mom|mother|dad|father)\<close> tried in order at one position.\<close>

fun match_here :: "string list \<Rightarrow> string \<Rightarrow> string option" where
  "match_here [] s = None"
| "match_here (w # ws) s =
     (if startswith s w \<and> word_boundary (rev w) (drop (length w) s) then Some w
      else match_here ws s)"

text \<open>\<open>re.search\<close>: the leftmost position where the pattern matches; \<open>seen\<close> holds the
  characters already passed, the last one first.\<close>

fun search_kin :: "string \<Rightarrow> string \<Rightarrow> string option" where
  "search_kin seen [] = None"
| "search_kin seen (c # cs) =
     (case (if word_boundary seen (c # cs) then match_here kinship (c # cs) else None) of
        Some w \<Rightarrow> Some w
      | None \<Rightarrow> search_kin (c # seen) cs)"

text \<open>The result is the value of the alias, of any type, when the key has one.\<close>

definition infer_person_name :: "env \<Rightarrow> string \<Rightarrow> json" where
  "infer_person_name E raw =
     (let s = lower (strip raw)
      in case search_kin [] s of
           Some key \<Rightarrow> (case ALIASES E key of Some v \<Rightarrow> v | None \<Rightarrow> JStr (title key))
         | None \<Rightarrow> JStr [])"

section \<open>extract_json\<close>

text \<open>
  \<open>re.search(r"\{.*\}", s, flags=re.DOTALL)\<close>: from the first \<open>{\<close> to the last \<open>}\<close>,
  when the last \<open>}\<close> comes after the first \<open>{\<close>.
\<close>

definition brace_blob :: "string \<Rightarrow> string option" where
  "brace_blob s =
     (let t = dropWhile (\<lambda>c. c \<noteq> CHR ''{'') s;
          u = rev (dropWhile (\<lambda>c. c \<noteq> CHR ''}'') (rev t))
      in if u = [] then None else Some u)"

definition extract_json :: "env \<Rightarrow> string \<Rightarrow> json option" where
  "extract_json E s0 =
     (let s = strip s0
      in case json_loads E s of
           Some v \<Rightarrow> Some v
         | None \<Rightarrow>
             (case brace_blob s of
                None \<Rightarrow> None
              | Some blob \<Rightarrow> json_loads E blob))"

section \<open>ollama_call\<close>

text \<open>The result is the trimmed output, or \<open>str(e)\<close> of the exception raised.\<close>

definition ollama_call :: "env \<Rightarrow> nat \<Rightarrow> string \<Rightarrow> string + string" where
  "ollama_call E k prompt =
     (case subprocess_run E k prompt of
        RunRaised msg \<Rightarrow> Inl msg
      | Exited returncode out err \<Rightarrow>
          if returncode \<noteq> 0 then Inl (''ollama failed: '' @ strip err)
          else Inr (strip out))"

section \<open>pre_route\<close>

definition pre_route :: "string \<Rightarrow> (string \<times> string) option" where
  "pre_route raw =
     (let s = strip raw;
          low = lower s;
          strip_prefix = (\<lambda>pfx. strip (drop (length pfx) s))
      in if startswith low ''admin:'' then Some (''admin'', strip_prefix ''admin:'')
         else if startswith low ''project:'' then Some (''projects'', strip_prefix ''project:'')
         else if startswith low ''projects:'' then Some (''projects'', strip_prefix ''projects:'')
         else if startswith low ''idea:'' then Some (''ideas'', strip_prefix ''idea:'')
         else if startswith low ''ideas:'' then Some (''ideas'', strip_prefix ''ideas:'')
         else if startswith low ''person:'' then Some (''people'', strip_prefix ''person:'')
         else if startswith low ''people:'' then Some (''people'', strip_prefix ''people:'')
         else None)"

section \<open>Python values\<close>

datatype exn = ValueError | TypeError | AttributeError | OverflowError | BindError

text \<open>Truth value of a Python object.\<close>

fun truthy :: "json \<Rightarrow> bool" where
  "truthy JNull = False"
| "truthy (JBool b) = b"
| "truthy (JInt i) = (i \<noteq> 0)"
| "truthy (JFloat x) = (x \<noteq> 0)"
| "truthy (JStr s) = (s \<noteq> [])"
| "truthy (JArr xs) = (xs \<noteq> [])"
| "truthy (JObj kvs) = (kvs \<noteq> [])"

text \<open>\<open>a or b\<close>.\<close>

definition py_or :: "json \<Rightarrow> json \<Rightarrow> json" where
  "py_or a b = (if truthy a then a else b)"

text \<open>\<open>d.get(k, dflt)\<close> on a dict.\<close>

definition obj_get :: "(string \<times> json) list \<Rightarrow> string \<Rightarrow> json \<Rightarrow> json" where
  "obj_get kvs k dflt = (case map_of kvs k of Some v \<Rightarrow> v | None \<Rightarrow> dflt)"

text \<open>\<open>v.strip()\<close>: only a \<open>str\<close> has the method.\<close>

fun py_strip :: "json \<Rightarrow> exn + string" where
  "py_strip (JStr s) = Inr (strip s)"
| "py_strip v = Inl AttributeError"

text \<open>
  \<open>float(i)\<close> of an integer: exact below \<open>2^53\<close>, rounded to 53 significant bits (ties to
  even) above, and \<open>OverflowError\<close> (\<open>None\<close>) when the result is no finite double.
\<close>

definition float_of_int :: "int \<Rightarrow> rat option" where
  "float_of_int i =
     (let a = \<bar>i\<bar>
      in if a < 2 ^ 53 then Some (of_int i)
         else
           (let e = nat (bitlen a) - 53;
                q = a div 2 ^ e;
                r = a mod 2 ^ e;
                half = 2 ^ (e - 1);
                q' = (if r > half \<or> (r = half \<and> odd q) then q + 1 else q);
                v = q' * 2 ^ e
            in if v \<ge> 2 ^ 1024 then None else Some (of_int (sgn i * v))))"

text \<open>\<open>float(v)\<close>.\<close>

fun py_float :: "env \<Rightarrow> json \<Rightarrow> exn + rat" where
  "py_float E JNull = Inl TypeError"
| "py_float E (JBool b) = Inr (if b then 1 else 0)"
| "py_float E (JInt i) =
     (case float_of_int i of None \<Rightarrow> Inl OverflowError | Some x \<Rightarrow> Inr x)"
| "py_float E (JFloat x) = Inr x"
| "py_float E (JStr s) =
     (case float_of_str E s of None \<Rightarrow> Inl ValueError | Some x \<Rightarrow> Inr x)"
| "py_float E (JArr xs) = Inl TypeError"
| "py_float E (JObj kvs) = Inl TypeError"

section \<open>The store\<close>

text \<open>
  A value bound to a parameter of a statement: \<open>None\<close>, an \<open>int\<close> (a \<open>bool\<close> is one)
  that fits 64 bits, a \<open>float\<close> or a \<open>str\<close>; anything else makes \<open>execute\<close> raise.
\<close>

datatype sqlval = SNull | SInt int | SReal rat | SText string

fun sql_bind :: "json \<Rightarrow> exn + sqlval" where
  "sql_bind JNull = Inr SNull"
| "sql_bind (JBool b) = Inr (SInt (if b then 1 else 0))"
| "sql_bind (JInt i) =
     (if - (2 ^ 63) \<le> i \<and> i < 2 ^ 63 then Inr (SInt i) else Inl OverflowError)"
| "sql_bind (JFloat x) = Inr (SReal x)"
| "sql_bind (JStr s) = Inr (SText s)"
| "sql_bind (JArr xs) = Inl BindError"
| "sql_bind (JObj kvs) = Inl BindError"

text \<open>The three optional columns of an \<open>INSERT\<close>, bound in order.\<close>

definition sql_bind3 :: "json \<Rightarrow> json \<Rightarrow> json \<Rightarrow> exn + (sqlval \<times> sqlval \<times> sqlval)" where
  "sql_bind3 a b c =
     (case sql_bind a of Inl e \<Rightarrow> Inl e | Inr x \<Rightarrow>
      case sql_bind b of Inl e \<Rightarrow> Inl e | Inr y \<Rightarrow>
      case sql_bind c of Inl e \<Rightarrow> Inl e | Inr z \<Rightarrow> Inr (x, y, z))"

definition sql_bind2 :: "json \<Rightarrow> json \<Rightarrow> exn + (sqlval \<times> sqlval)" where
  "sql_bind2 a b =
     (case sql_bind a of Inl e \<Rightarrow> Inl e | Inr x \<Rightarrow>
      case sql_bind b of Inl e \<Rightarrow> Inl e | Inr y \<Rightarrow> Inr (x, y))"

text \<open>
  The tables, a row per record. A column left \<open>NULL\<close> is \<open>None\<close>. The column
  \<open>updated_at\<close>, set from the clock, is left out.
\<close>

record inbox_row =
  row_id :: int
  raw_text :: string
  status :: string
  category :: "string option"
  confidence :: "rat option"
  model :: "string option"
  error :: "string option"

record people_row =
  p_name :: sqlval
  p_context :: sqlval
  p_follow_up :: sqlval
  p_last_contact :: sqlval

record projects_row =
  pr_name :: string
  pr_status :: string
  pr_next_action :: sqlval
  pr_notes :: sqlval

record ideas_row =
  i_title :: string
  i_one_liner :: sqlval
  i_notes :: sqlval

record admin_row =
  a_task :: string
  a_due_date :: sqlval
  a_status :: string

record log_row =
  event :: string
  inbox_id :: "int option"
  details :: string

text \<open>The committed store, and the number of runs of the external process so far.\<close>

record state =
  inbox :: "inbox_row list"
  people :: "people_row list"
  projects :: "projects_row list"
  ideas :: "ideas_row list"
  admin :: "admin_row list"
  log_events :: "log_row list"
  ollama_calls :: nat

text \<open>A record of one of the four category tables, and its \<open>INSERT\<close>.\<close>

datatype category_record =
    PeopleRec people_row
  | ProjectRec projects_row
  | IdeaRec ideas_row
  | AdminRec admin_row

fun insert_record :: "category_record \<Rightarrow> state \<Rightarrow> state" where
  "insert_record (PeopleRec r) st = st\<lparr>people := people st @ [r]\<rparr>"
| "insert_record (ProjectRec r) st = st\<lparr>projects := projects st @ [r]\<rparr>"
| "insert_record (IdeaRec r) st = st\<lparr>ideas := ideas st @ [r]\<rparr>"
| "insert_record (AdminRec r) st = st\<lparr>admin := admin st @ [r]\<rparr>"

declare insert_record.simps [simp del]

text \<open>
  The required identifying field: \<open>name\<close>, \<open>name\<close>, \<open>title\<close>, \<open>task\<close>. The name of a
  person is the value bound to the statement, which is the value of an alias when the
  name was resolved through the alias table; the other three are always strings.
\<close>

fun required_field :: "category_record \<Rightarrow> sqlval" where
  "required_field (PeopleRec r) = p_name r"
| "required_field (ProjectRec r) = SText (pr_name r)"
| "required_field (IdeaRec r) = SText (i_title r)"
| "required_field (AdminRec r) = SText (a_task r)"

text \<open>\<open>UPDATE inbox SET ... WHERE id=?\<close>.\<close>

definition update_inbox :: "int \<Rightarrow> (inbox_row \<Rightarrow> inbox_row) \<Rightarrow> state \<Rightarrow> state" where
  "update_inbox i f st =
     st\<lparr>inbox := map (\<lambda>r. if row_id r = i then f r else r) (inbox st)\<rparr>"

text \<open>\<open>SET status='needs_review', category=?, confidence=?, model=?, error=?\<close>.\<close>

definition set_needs_review :: "string \<Rightarrow> rat \<Rightarrow> string \<Rightarrow> string \<Rightarrow> inbox_row \<Rightarrow> inbox_row" where
  "set_needs_review cat conf mdl err r =
     r\<lparr>status := ''needs_review'', category := Some cat, confidence := Some conf,
       model := Some mdl, error := Some err\<rparr>"

text \<open>\<open>SET status='needs_review', error=?, model=?\<close>.\<close>

definition set_failed :: "string \<Rightarrow> string \<Rightarrow> inbox_row \<Rightarrow> inbox_row" where
  "set_failed err mdl r =
     r\<lparr>status := ''needs_review'', error := Some err, model := Some mdl\<rparr>"

text \<open>\<open>SET status='processed', category=?, confidence=?, model=?, error=''\<close>.\<close>

definition set_processed :: "string \<Rightarrow> rat \<Rightarrow> string \<Rightarrow> inbox_row \<Rightarrow> inbox_row" where
  "set_processed cat conf mdl r =
     r\<lparr>status := ''processed'', category := Some cat, confidence := Some conf,
       model := Some mdl, error := Some []\<rparr>"

definition log_event :: "string \<Rightarrow> int option \<Rightarrow> string \<Rightarrow> state \<Rightarrow> state" where
  "log_event ev i det st =
     st\<lparr>log_events := log_events st @ [\<lparr>event = ev, inbox_id = i, details = take 2000 det\<rparr>]\<rparr>"

section \<open>main: the prefix stage\<close>

text \<open>
  How a branch of the loop body ends: with \<open>continue\<close>, the item done, or by going on to
  the statements after the \<open>if\<close> chain (the \<open>UPDATE\<close> to \<open>processed\<close>).
\<close>

datatype flow = Continue state | Fallthrough state

text \<open>
  The name of a person given after a prefix, resolved through the alias table: the value
  of the alias as it is, of any type, when the name in lower case is a key.
\<close>

definition prefix_person_name :: "env \<Rightarrow> string \<Rightarrow> json" where
  "prefix_person_name E clean =
     (let name = strip clean
      in case ALIASES E (lower name) of
           Some v \<Rightarrow> v
         | None \<Rightarrow>
             if lower name \<in> set kinship
             then py_or (infer_person_name E name) (JStr (title name))
             else JStr name)"

definition mark_review ::
  "int \<Rightarrow> string \<Rightarrow> rat \<Rightarrow> string \<Rightarrow> string \<Rightarrow> string \<Rightarrow> state \<Rightarrow> state" where
  "mark_review i cat conf mdl err det st =
     log_event ''needs_review'' (Some i) det
       (update_inbox i (set_needs_review cat conf mdl err) st)"

definition mark_processed ::
  "int \<Rightarrow> string \<Rightarrow> rat \<Rightarrow> string \<Rightarrow> string \<Rightarrow> state \<Rightarrow> state" where
  "mark_processed i cat conf mdl det st =
     log_event ''processed'' (Some i) det
       (update_inbox i (set_processed cat conf mdl) st)"

text \<open>
  The \<open>if\<close> chain of the prefix stage, for a category and a non-empty remainder. Under
  the people prefix the name is tested for truth and then bound to the \<open>INSERT\<close>, which
  raises when the value of the alias is a list or an object that is not empty, or an
  integer out of range.
\<close>

definition prefix_insert ::
  "env \<Rightarrow> int \<Rightarrow> string \<Rightarrow> string \<Rightarrow> string \<Rightarrow> state \<Rightarrow> exn + flow" where
  "prefix_insert E i raw cat clean st =
     (if cat = ''admin''
      then Inr (Fallthrough
        (insert_record
           (AdminRec
              \<lparr>a_task = clean, a_due_date = SText [],
               a_status = ''open''\<rparr>) st))
      else if cat = ''projects''
      then Inr (Fallthrough
        (insert_record
           (ProjectRec
              \<lparr>pr_name = clean, pr_status = ''active'',
               pr_next_action = SText [], pr_notes = SText []\<rparr>) st))
      else if cat = ''ideas''
      then Inr (Fallthrough
        (insert_record
           (IdeaRec
              \<lparr>i_title = clean, i_one_liner = SText [],
               i_notes = SText []\<rparr>) st))
      else if cat = ''people''
      then (let name = prefix_person_name E clean
            in if \<not> truthy name
               then Inr (Continue (mark_review i ''people'' 1 ''prefix'' ''missing person name''
                                     ''missing person name (prefix)'' st))
               else
                 (case sql_bind name of
                    Inl e \<Rightarrow> Inl e
                  | Inr nm \<Rightarrow>
                      Inr (Fallthrough
                        (insert_record
                           (PeopleRec
                              \<lparr>p_name = nm, p_context = SText [],
                               p_follow_up = SText raw, p_last_contact = SText []\<rparr>) st))))
      else Inr (Fallthrough st))"

definition prefix_stage ::
  "env \<Rightarrow> int \<Rightarrow> string \<Rightarrow> string \<Rightarrow> string \<Rightarrow> state \<Rightarrow> exn + state" where
  "prefix_stage E i raw cat clean st =
     (if clean = []
      then Inr (mark_review i cat 1 ''prefix'' ''empty after prefix''
                  (''prefix '' @ cat @ '' but empty'') st)
      else
        (case prefix_insert E i raw cat clean st of
           Inl e \<Rightarrow> Inl e
         | Inr (Continue st1) \<Rightarrow> Inr st1
         | Inr (Fallthrough st1) \<Rightarrow>
             Inr (mark_processed i cat 1 ''prefix'' (''prefix_route -> '' @ cat) st1)))"

section \<open>main: the fallback stage\<close>

text \<open>
  The body of the \<open>try\<close> block at iteration \<open>attempt\<close>, as run number \<open>k\<close> of the
  external process: \<open>Inr\<close> the parsed object when the attempt succeeds (\<open>parsed\<close> is
  true and a \<open>dict\<close>), \<open>Inl\<close> the new value of \<open>last_err\<close> when it fails.
\<close>

definition attempt_once :: "env \<Rightarrow> string \<Rightarrow> nat \<Rightarrow> nat \<Rightarrow> string + (string \<times> json) list" where
  "attempt_once E raw k attempt =
     (case ollama_call E k (PROMPT @ raw) of
        Inl msg \<Rightarrow> Inl msg
      | Inr out \<Rightarrow>
          (case extract_json E out of
             Some (JObj kvs) \<Rightarrow>
               if kvs \<noteq> [] then Inr kvs
               else Inl (''invalid json (attempt '' @ str_nat attempt @ '')'')
           | _ \<Rightarrow> Inl (''invalid json (attempt '' @ str_nat attempt @ '')'')))"

text \<open>
  The retry loop, with \<open>n\<close> iterations left, at iteration \<open>attempt\<close>, after \<open>k\<close> runs of the
  external process. It gives \<open>result\<close>, \<open>last_err\<close> and the number of runs.
\<close>

fun retry_loop ::
  "env \<Rightarrow> string \<Rightarrow> nat \<Rightarrow> nat \<Rightarrow> nat \<Rightarrow> string \<Rightarrow> (string \<times> json) list option \<times> string \<times> nat" where
  "retry_loop E raw 0 attempt k last_err = (None, last_err, k)"
| "retry_loop E raw (Suc n) attempt k last_err =
     (case attempt_once E raw k attempt of
        Inr parsed \<Rightarrow> (Some parsed, last_err, Suc k)
      | Inl err \<Rightarrow> retry_loop E raw n (Suc attempt) (Suc k) err)"

text \<open>The category of the result when it is one of the four, else \<open>None\<close>.\<close>

definition valid_category :: "json \<Rightarrow> string option" where
  "valid_category c =
     (case c of
        JStr s \<Rightarrow> if s \<in> set [''people'', ''projects'', ''ideas'', ''admin''] then Some s else None
      | _ \<Rightarrow> None)"

definition fallback_people ::
  "env \<Rightarrow> int \<Rightarrow> string \<Rightarrow> rat \<Rightarrow> json \<Rightarrow> state \<Rightarrow> exn + flow" where
  "fallback_people E i raw conf flds st =
     (case flds of
        JObj f \<Rightarrow>
          (case py_strip (py_or (obj_get f ''name'' JNull) (JStr [])) of
             Inl e \<Rightarrow> Inl e
           | Inr name0 \<Rightarrow>
               (let name = (if name0 = [] then infer_person_name E raw else JStr name0)
                in if \<not> truthy name
                   then Inr (Continue (mark_review i ''people'' conf MODEL ''missing person name''
                                         ''missing person name'' st))
                   else
                     (case sql_bind name of
                        Inl e \<Rightarrow> Inl e
                      | Inr nm \<Rightarrow>
                          (case sql_bind3 (obj_get f ''context'' (JStr []))
                                          (obj_get f ''follow_up'' (JStr []))
                                          (obj_get f ''last_contact'' (JStr [])) of
                             Inl e \<Rightarrow> Inl e
                           | Inr (c, fu, lc) \<Rightarrow>
                               Inr (Fallthrough
                                 (insert_record
                                    (PeopleRec
                                       \<lparr>p_name = nm, p_context = c,
                                        p_follow_up = fu, p_last_contact = lc\<rparr>) st))))))
      | _ \<Rightarrow> Inl AttributeError)"

definition fallback_projects :: "int \<Rightarrow> rat \<Rightarrow> json \<Rightarrow> state \<Rightarrow> exn + flow" where
  "fallback_projects i conf flds st =
     (case flds of
        JObj f \<Rightarrow>
          (case py_strip (py_or (obj_get f ''name'' JNull) (JStr [])) of
             Inl e \<Rightarrow> Inl e
           | Inr name \<Rightarrow>
               if name = []
               then Inr (Continue (mark_review i ''projects'' conf MODEL ''missing project name''
                                     ''missing project name'' st))
               else
                 (case py_strip (py_or (obj_get f ''status'' JNull) (JStr ''active'')) of
                    Inl e \<Rightarrow> Inl e
                  | Inr status0 \<Rightarrow>
                      (let status1 =
                             (if status0 \<notin> set [''active'', ''waiting'', ''blocked'', ''someday'', ''done'']
                              then ''active'' else status0)
                       in case sql_bind2 (obj_get f ''next_action'' (JStr []))
                                         (obj_get f ''notes'' (JStr [])) of
                            Inl e \<Rightarrow> Inl e
                          | Inr (na, no) \<Rightarrow>
                              Inr (Fallthrough
                                (insert_record
                                   (ProjectRec
                                      \<lparr>pr_name = name, pr_status = status1,
                                       pr_next_action = na, pr_notes = no\<rparr>) st)))))
      | _ \<Rightarrow> Inl AttributeError)"

definition fallback_ideas ::
  "int \<Rightarrow> rat \<Rightarrow> (string \<times> json) list \<Rightarrow> json \<Rightarrow> state \<Rightarrow> exn + flow" where
  "fallback_ideas i conf result flds st =
     (case flds of
        JObj f \<Rightarrow>
          (case py_strip (py_or (py_or (obj_get f ''title'' JNull) (obj_get result ''title'' JNull))
                                (JStr [])) of
             Inl e \<Rightarrow> Inl e
           | Inr title0 \<Rightarrow>
               if title0 = []
               then Inr (Continue (mark_review i ''ideas'' conf MODEL ''missing idea title''
                                     ''missing idea title'' st))
               else
                 (case sql_bind2 (obj_get f ''one_liner'' (JStr []))
                                 (obj_get f ''notes'' (JStr [])) of
                    Inl e \<Rightarrow> Inl e
                  | Inr (ol, no) \<Rightarrow>
                      Inr (Fallthrough
                        (insert_record
                           (IdeaRec
                              \<lparr>i_title = title0, i_one_liner = ol,
                               i_notes = no\<rparr>) st))))
      | _ \<Rightarrow> Inl AttributeError)"

definition fallback_admin :: "int \<Rightarrow> rat \<Rightarrow> json \<Rightarrow> state \<Rightarrow> exn + flow" where
  "fallback_admin i conf flds st =
     (case flds of
        JObj f \<Rightarrow>
          (case py_strip (py_or (obj_get f ''task'' JNull) (JStr [])) of
             Inl e \<Rightarrow> Inl e
           | Inr task \<Rightarrow>
               if task = []
               then Inr (Continue (mark_review i ''admin'' conf MODEL ''missing admin task''
                                     ''missing admin task'' st))
               else
                 (case py_strip (py_or (obj_get f ''status'' JNull) (JStr ''open'')) of
                    Inl e \<Rightarrow> Inl e
                  | Inr status0 \<Rightarrow>
                      (let status1 = (if status0 \<notin> set [''open'', ''done''] then ''open'' else status0)
                       in case sql_bind (obj_get f ''due_date'' (JStr [])) of
                            Inl e \<Rightarrow> Inl e
                          | Inr dd \<Rightarrow>
                              Inr (Fallthrough
                                (insert_record
                                   (AdminRec
                                      \<lparr>a_task = task, a_due_date = dd,
                                       a_status = status1\<rparr>) st)))))
      | _ \<Rightarrow> Inl AttributeError)"

text \<open>The \<open>if\<close> chain on the category, after validation.\<close>

definition fallback_insert ::
  "env \<Rightarrow> int \<Rightarrow> string \<Rightarrow> string \<Rightarrow> rat \<Rightarrow> (string \<times> json) list \<Rightarrow> json \<Rightarrow> state \<Rightarrow> exn + flow" where
  "fallback_insert E i raw cat conf result flds st =
     (if cat = ''people'' then fallback_people E i raw conf flds st
      else if cat = ''projects'' then fallback_projects i conf flds st
      else if cat = ''ideas'' then fallback_ideas i conf result flds st
      else if cat = ''admin'' then fallback_admin i conf flds st
      else Inr (Fallthrough st))"

text \<open>The statements after the retry loop, for a result the loop accepted.\<close>

definition route_result ::
  "env \<Rightarrow> int \<Rightarrow> string \<Rightarrow> (string \<times> json) list \<Rightarrow> state \<Rightarrow> exn + state" where
  "route_result E i raw result st =
     (let cat_v = obj_get result ''category'' (JStr ''unknown'')
      in case py_float E (py_or (obj_get result ''confidence'' (JFloat 0)) (JFloat 0)) of
           Inl e \<Rightarrow> Inl e
         | Inr conf \<Rightarrow>
             (let flds = py_or (obj_get result ''fields'' (JObj [])) (JObj []);
                  dump = take 2000 (json_dumps E (JObj result))
              in case valid_category cat_v of
                   None \<Rightarrow> Inr (mark_review i ''unknown'' conf MODEL [] dump st)
                 | Some cat \<Rightarrow>
                     if conf < CONF_THRESHOLD
                     then Inr (mark_review i cat conf MODEL [] dump st)
                     else
                       (case fallback_insert E i raw cat conf result flds st of
                          Inl e \<Rightarrow> Inl e
                        | Inr (Continue st1) \<Rightarrow> Inr st1
                        | Inr (Fallthrough st1) \<Rightarrow>
                            Inr (mark_processed i cat conf MODEL dump st1))))"

definition fallback_stage :: "env \<Rightarrow> int \<Rightarrow> string \<Rightarrow> state \<Rightarrow> exn + state" where
  "fallback_stage E i raw st =
     (case retry_loop E raw (MAX_RETRIES + 1) 0 (ollama_calls st) [] of
        (None, last_err, k) \<Rightarrow>
          Inr (log_event ''needs_review'' (Some i) last_err
                 (update_inbox i (set_failed last_err MODEL) (st\<lparr>ollama_calls := k\<rparr>)))
      | (Some result, last_err, k) \<Rightarrow>
          route_result E i raw result (st\<lparr>ollama_calls := k\<rparr>))"

section \<open>main\<close>

text \<open>The body of the loop for one row: \<open>Inl\<close> is an exception that leaves the loop.\<close>

definition process_item :: "env \<Rightarrow> int \<Rightarrow> string \<Rightarrow> state \<Rightarrow> exn + state" where
  "process_item E i raw st =
     (case pre_route raw of
        Some (cat, clean) \<Rightarrow> prefix_stage E i raw cat clean st
      | None \<Rightarrow> fallback_stage E i raw st)"




section \<open>A test double for the library and the external process\<close>

text \<open>
  Runs on concrete inputs use a classifier that answers from a script, one entry per run,
  and the values of \<open>json.loads\<close> and \<open>json.dumps\<close> on the texts below (\<open>0.4\<close>
  and \<open>0.9\<close> are the doubles nearest to them).
\<close>

definition reply_bad_confidence :: string where
  \<open>reply_bad_confidence = ''{"category": "people", "confidence": "high"}''\<close>

definition reply_low_confidence :: string where
  \<open>reply_low_confidence =
     ''{"category": "projects", "confidence": 0.4, "fields": {"name": "Migrate DB"}}''\<close>

definition reply_project :: string where
  \<open>reply_project =
     ''{"category": "projects", "confidence": 0.9, "fields": {"name": "Migrate DB"}}''\<close>

definition reply_bad_task :: string where
  \<open>reply_bad_task = ''{"category": "admin", "confidence": 1, "fields": {"task": 7}}''\<close>

definition canned_json :: "(string \<times> json) list" where
  "canned_json =
    [(''42'', JInt 42),
     (''{}'', JObj []),
     (reply_bad_confidence,
        JObj [(''category'', JStr ''people''), (''confidence'', JStr ''high'')]),
     (reply_low_confidence,
        JObj [(''category'', JStr ''projects''),
              (''confidence'', JFloat (3602879701896397 / 9007199254740992)),
              (''fields'', JObj [(''name'', JStr ''Migrate DB'')])]),
     (reply_project,
        JObj [(''category'', JStr ''projects''),
              (''confidence'', JFloat (8106479329266893 / 9007199254740992)),
              (''fields'', JObj [(''name'', JStr ''Migrate DB'')])]),
     (reply_bad_task,
        JObj [(''category'', JStr ''admin''), (''confidence'', JInt 1),
              (''fields'', JObj [(''task'', JInt 7)])])]"

definition canned_loads :: "string \<Rightarrow> json option" where
  "canned_loads s = map_of canned_json s"

definition canned_dumps :: "json \<Rightarrow> string" where
  "canned_dumps v = (case find (\<lambda>p. snd p = v) canned_json of Some p \<Rightarrow> fst p | None \<Rightarrow> [])"

definition scripted :: "proc list \<Rightarrow> nat \<Rightarrow> string \<Rightarrow> proc" where
  "scripted script k prompt =
     (if k < length script then script ! k else RunRaised ''no answer scripted'')"

text \<open>The first argument is the content of the alias file, an object.\<close>

definition test_env :: "(string \<times> json) list \<Rightarrow> proc list \<Rightarrow> env" where
  "test_env aliases script =
     \<lparr>ALIASES = load_aliases (Some (JObj aliases)), json_loads = canned_loads,
      json_dumps = canned_dumps, float_of_str = (\<lambda>s. None), subprocess_run = scripted script\<rparr>"

definition unprocessed :: "int \<Rightarrow> string \<Rightarrow> inbox_row" where
  "unprocessed i txt =
     \<lparr>row_id = i, raw_text = txt, status = ''unprocessed'', category = None,
      confidence = None, model = None, error = None\<rparr>"

definition store_of :: "inbox_row list \<Rightarrow> state" where
  "store_of rows =
     \<lparr>inbox = rows, people = [], projects = [], ideas = [], admin = [],
      log_events = [], ollama_calls = 0\<rparr>"



section \<open>The recognized prefixes\<close>

text \<open>The literal prefixes of the router with the category of each, as the specification
  lists them.\<close>

definition prefix_table :: "(string \<times> string) list" where
  "prefix_table =
     [(''admin:'', ''admin''), (''project:'', ''projects''), (''projects:'', ''projects''),
      (''idea:'', ''ideas''), (''ideas:'', ''ideas''),
      (''person:'', ''people''), (''people:'', ''people'')]"

section \<open>Notions used in the statements and proofs\<close>

text \<open>The four category tables of a store.\<close>

definition tables ::
  "state \<Rightarrow> people_row list \<times> projects_row list \<times> ideas_row list \<times> admin_row list" where
  "tables st = (people st, projects st, ideas st, admin st)"

text \<open>
  A required field that is not empty: no \<open>NULL\<close>, no zero and no empty text; a text when
  every alias value is a string; and not blank either when no alias is blank (the program
  uses the value of an alias as it is stored).
\<close>

definition sound_field :: "env \<Rightarrow> sqlval \<Rightarrow> bool" where
  "sound_field E f =
     (f \<notin> {SNull, SInt 0, SReal 0, SText []}
      \<and> ((\<forall>k v. ALIASES E k = Some v \<longrightarrow> (\<exists>s. v = JStr s)) \<longrightarrow> (\<exists>s. f = SText s))
      \<and> ((\<forall>k s. ALIASES E k = Some (JStr s) \<longrightarrow> s \<noteq> [] \<longrightarrow> strip s \<noteq> [])
           \<longrightarrow> (\<forall>s. f = SText s \<longrightarrow> strip s \<noteq> [])))"

text \<open>
  The two ways a branch of the loop body ends, and the two ways an item ends after the
  retry loop or under a prefix: marked for review, logged with one of the texts of \<open>D\<close>,
  or filed in one table and marked processed, logged with the text \<open>p\<close>.
\<close>

definition flow_shape :: "env \<Rightarrow> int \<Rightarrow> string set \<Rightarrow> state \<Rightarrow> flow \<Rightarrow> bool" where
  "flow_shape E i D st fl =
     ((\<exists>cat conf mdl err det. det \<in> D \<and> fl = Continue (mark_review i cat conf mdl err det st))
      \<or> (\<exists>rec. fl = Fallthrough (insert_record rec st) \<and> sound_field E (required_field rec)))"

definition item_shape :: "env \<Rightarrow> int \<Rightarrow> string set \<Rightarrow> string \<Rightarrow> state \<Rightarrow> state \<Rightarrow> bool" where
  "item_shape E i D p st st' =
     ((\<exists>cat conf mdl err det. det \<in> D \<and> st' = mark_review i cat conf mdl err det st)
      \<or> (\<exists>rec cat conf mdl.
            st' = mark_processed i cat conf mdl p (insert_record rec st)
            \<and> sound_field E (required_field rec)))"

text \<open>The texts the prefix stage may log for an item it marks for review.\<close>

definition prefix_texts :: "string \<Rightarrow> string \<Rightarrow> string set" where
  "prefix_texts cat clean =
     (if clean = [] then {''prefix '' @ cat @ '' but empty''}
      else {''missing person name (prefix)''})"

text \<open>The texts logged when a required field is missing after the retry loop.\<close>

definition missing_texts :: "string set" where
  "missing_texts =
     {''missing person name'', ''missing project name'', ''missing idea title'',
      ''missing admin task''}"

text \<open>The texts the fallback stage may log for an item it marks for review after the
  retry loop.\<close>

definition review_texts :: "env \<Rightarrow> (string \<times> json) list \<Rightarrow> string set" where
  "review_texts E result = insert (take 2000 (json_dumps E (JObj result))) missing_texts"


section \<open>Trimming and lower case\<close>

lemma is_space_lower_char: "is_space c \<Longrightarrow> lower_char c = c"
  by (auto simp: is_space_def lower_char_def Let_def)

lemma lower_length [simp]: "length (lower s) = length s"
  by (simp add: lower_def)

lemma lower_append: "lower (xs @ ys) = lower xs @ lower ys"
  by (simp add: lower_def)

lemma lower_nonspace:
  assumes "lower a = p" and "\<forall>c\<in>set p. \<not> is_space c"
  shows "\<forall>c\<in>set a. \<not> is_space c"
proof
  fix c assume c: "c \<in> set a"
  show "\<not> is_space c"
  proof
    assume sp: "is_space c"
    then have "lower_char c = c" by (rule is_space_lower_char)
    with c have "c \<in> set (lower a)" by (force simp: lower_def)
    with assms sp show False by simp
  qed
qed

lemma rstrip_append_nonspace:
  assumes "a \<noteq> []" and "\<not> is_space (last a)"
  shows "rstrip (a @ b) = a @ rstrip b"
proof (cases "\<forall>c\<in>set b. is_space c")
  case True
  then have "dropWhile is_space (rev b @ rev a) = dropWhile is_space (rev a)"
    by (simp add: dropWhile_append)
  moreover have "dropWhile is_space (rev a) = rev a"
    using assms by (cases "rev a") (auto simp: last_rev hd_rev)
  moreover have "dropWhile is_space (rev b) = []" using True by simp
  ultimately show ?thesis by (simp add: rstrip_def)
next
  case False
  then have "dropWhile is_space (rev b @ rev a) = dropWhile is_space (rev b) @ rev a"
    by (auto simp: dropWhile_append)
  then show ?thesis by (simp add: rstrip_def)
qed

lemma lstrip_nonspace: "a \<noteq> [] \<Longrightarrow> \<not> is_space (hd a) \<Longrightarrow> lstrip (a @ b) = a @ b"
  by (cases a) (auto simp: lstrip_def)

lemma strip_append_nonspace:
  assumes "a \<noteq> []" and "\<forall>c\<in>set a. \<not> is_space c"
  shows "strip (a @ b) = a @ rstrip b"
proof -
  have "\<not> is_space (hd a)" "\<not> is_space (last a)" using assms by auto
  then show ?thesis
    using assms(1) by (simp add: strip_def lstrip_nonspace rstrip_append_nonspace)
qed

lemma rstrip_eq_Nil: "(rstrip s = []) = (\<forall>c\<in>set s. is_space c)"
  by (auto simp: rstrip_def dropWhile_eq_Nil_conv)

lemma lstrip_eq_Nil: "(lstrip s = []) = (\<forall>c\<in>set s. is_space c)"
  by (auto simp: lstrip_def dropWhile_eq_Nil_conv)

lemma rstrip_idem: "rstrip (rstrip s) = rstrip s"
  by (simp add: rstrip_def dropWhile_idem)

lemma lstrip_idem: "lstrip (lstrip s) = lstrip s"
  by (simp add: lstrip_def dropWhile_idem)

lemma lstrip_rstrip: "lstrip (rstrip s) = rstrip (lstrip s)"
proof (induction s)
  case Nil
  show ?case by (simp add: lstrip_def rstrip_def)
next
  case (Cons c s)
  show ?case
  proof (cases "is_space c")
    case True
    have l: "lstrip (c # s) = lstrip s" using True by (simp add: lstrip_def)
    show ?thesis
    proof (cases "\<forall>d\<in>set s. is_space d")
      case True
      with \<open>is_space c\<close> have r: "rstrip (c # s) = []" and e: "lstrip s = []"
        by (simp_all add: rstrip_eq_Nil lstrip_eq_Nil)
      have "lstrip (rstrip (c # s)) = []" by (simp only: r) (simp add: lstrip_def)
      moreover have "rstrip (lstrip (c # s)) = []" by (simp only: l e) (simp add: rstrip_def)
      ultimately show ?thesis by simp
    next
      case False
      then have "rstrip (c # s) = c # rstrip s"
        by (auto simp: rstrip_def dropWhile_append)
      then show ?thesis using l True Cons by (simp add: lstrip_def)
    qed
  next
    case False
    then have "rstrip (c # s) = c # rstrip s"
      using rstrip_append_nonspace [of "[c]" s] by simp
    then show ?thesis using False by (simp add: lstrip_def)
  qed
qed

lemma strip_rstrip: "strip (rstrip s) = strip s"
  by (simp add: strip_def lstrip_rstrip rstrip_idem)

lemma strip_idem: "strip (strip s) = strip s"
  by (simp add: strip_def lstrip_rstrip rstrip_idem lstrip_idem)

lemma routed_text:
  assumes low: "lower (take (length p) raw) = p" and ne: "p \<noteq> []"
    and ns: "\<forall>c\<in>set p. \<not> is_space c"
  shows "lower (strip raw) = p @ lower (rstrip (drop (length p) raw))"
    and "strip (drop (length p) (strip raw)) = strip (drop (length p) raw)"
proof -
  let ?a = "take (length p) raw" and ?b = "drop (length p) raw"
  have len: "length ?a = length p" using low lower_length [of ?a] by simp
  have a_ne: "?a \<noteq> []"
  proof
    assume e: "?a = []"
    have "length p = 0" using len unfolding e by simp
    then show False using ne by simp
  qed
  have a_ns: "\<forall>c\<in>set ?a. \<not> is_space c" using lower_nonspace [OF low ns] .
  have "strip (?a @ ?b) = ?a @ rstrip ?b" by (rule strip_append_nonspace [OF a_ne a_ns])
  then have s: "strip raw = ?a @ rstrip ?b" by simp
  show "lower (strip raw) = p @ lower (rstrip ?b)"
    by (simp only: s lower_append low)
  have "drop (length p) (?a @ rstrip ?b) = rstrip ?b" using len by simp
  then show "strip (drop (length p) (strip raw)) = strip ?b"
    by (simp only: s strip_rstrip)
qed

section \<open>The prefix router on a recognized prefix\<close>

lemma pre_route_table:
  assumes tab: "(pfx, cat) \<in> set prefix_table" and low: "lower (take (length pfx) raw) = pfx"
  shows "pre_route raw = Some (cat, strip (drop (length pfx) raw))"
proof -
  from tab have cases:
    "(pfx = ''admin:'' \<and> cat = ''admin'') \<or> (pfx = ''project:'' \<and> cat = ''projects'')
     \<or> (pfx = ''projects:'' \<and> cat = ''projects'') \<or> (pfx = ''idea:'' \<and> cat = ''ideas'')
     \<or> (pfx = ''ideas:'' \<and> cat = ''ideas'') \<or> (pfx = ''person:'' \<and> cat = ''people'')
     \<or> (pfx = ''people:'' \<and> cat = ''people'')"
    by (simp add: prefix_table_def)
  then have ns: "\<forall>c\<in>set pfx. \<not> is_space c"
    by (elim disjE conjE) (simp_all add: is_space_def)
  from cases have ne: "pfx \<noteq> []" by (elim disjE conjE) simp_all
  note r = routed_text [OF low ne ns]
  from cases show ?thesis
  proof (elim disjE conjE)
    assume "pfx = ''admin:''" "cat = ''admin''"
    then show ?thesis using r by (simp add: pre_route_def startswith_def Let_def)
  next
    assume "pfx = ''project:''" "cat = ''projects''"
    then show ?thesis using r by (simp add: pre_route_def startswith_def Let_def)
  next
    assume "pfx = ''projects:''" "cat = ''projects''"
    then show ?thesis using r by (simp add: pre_route_def startswith_def Let_def)
  next
    assume "pfx = ''idea:''" "cat = ''ideas''"
    then show ?thesis using r by (simp add: pre_route_def startswith_def Let_def)
  next
    assume "pfx = ''ideas:''" "cat = ''ideas''"
    then show ?thesis using r by (simp add: pre_route_def startswith_def Let_def)
  next
    assume "pfx = ''person:''" "cat = ''people''"
    then show ?thesis using r by (simp add: pre_route_def startswith_def Let_def)
  next
    assume "pfx = ''people:''" "cat = ''people''"
    then show ?thesis using r by (simp add: pre_route_def startswith_def Let_def)
  qed
qed

section \<open>The retry loop\<close>

lemma retry_loop_all_fail:
  assumes "\<forall>j<n. isl (attempt_once E raw (k + j) (a + j))"
  shows "retry_loop E raw n a k err =
           (None,
            if n = 0 then err else projl (attempt_once E raw (k + (n - 1)) (a + (n - 1))),
            k + n)"
  using assms
proof (induction n arbitrary: a k err)
  case 0
  show ?case by simp
next
  case (Suc n)
  from Suc.prems have "isl (attempt_once E raw (k + 0) (a + 0))" by blast
  then obtain e where e: "attempt_once E raw k a = Inl e"
    by (cases "attempt_once E raw k a") auto
  have "\<forall>j<n. isl (attempt_once E raw (Suc k + j) (Suc a + j))"
  proof (intro allI impI)
    fix j assume "j < n"
    then have "isl (attempt_once E raw (k + Suc j) (a + Suc j))" using Suc.prems by blast
    then show "isl (attempt_once E raw (Suc k + j) (Suc a + j))" by simp
  qed
  from Suc.IH [OF this, where err = e]
  have "retry_loop E raw n (Suc a) (Suc k) e =
          (None,
           if n = 0 then e else projl (attempt_once E raw (Suc k + (n - 1)) (Suc a + (n - 1))),
           Suc k + n)" .
  then show ?case using e by (cases n) auto
qed

lemma retry_loop_first_success:
  assumes "\<forall>j<m. isl (attempt_once E raw (k + j) (a + j))"
    and "attempt_once E raw (k + m) (a + m) = Inr res" and "m < n"
  shows "fst (retry_loop E raw n a k err) = Some res
         \<and> snd (snd (retry_loop E raw n a k err)) = k + m + 1"
  using assms
proof (induction m arbitrary: n a k err)
  case 0
  then obtain n' where "n = Suc n'" by (cases n) auto
  with 0 show ?case by simp
next
  case (Suc m)
  then obtain n' where n: "n = Suc n'" and mn: "m < n'" by (cases n) auto
  from Suc.prems(1) have "isl (attempt_once E raw (k + 0) (a + 0))" by blast
  then obtain e where e: "attempt_once E raw k a = Inl e"
    by (cases "attempt_once E raw k a") auto
  have f: "\<forall>j<m. isl (attempt_once E raw (Suc k + j) (Suc a + j))"
  proof (intro allI impI)
    fix j assume "j < m"
    then have "Suc j < Suc m" by simp
    with Suc.prems(1) have "isl (attempt_once E raw (k + Suc j) (a + Suc j))" by blast
    then show "isl (attempt_once E raw (Suc k + j) (Suc a + j))" by simp
  qed
  have s: "attempt_once E raw (Suc k + m) (Suc a + m) = Inr res" using Suc.prems(2) by simp
  from Suc.IH [OF f s mn, where err = e] show ?case using e n by simp
qed

lemma retry_loop_calls: "k \<le> snd (snd (retry_loop E raw n a k err))
    \<and> snd (snd (retry_loop E raw n a k err)) \<le> k + n"
proof (induction n arbitrary: a k err)
  case 0
  show ?case by simp
next
  case (Suc n)
  show ?case
  proof (cases "attempt_once E raw k a")
    case (Inl e)
    with Suc [where a = "Suc a" and k = "Suc k" and err = e] show ?thesis by simp
  next
    case (Inr r)
    then show ?thesis by simp
  qed
qed

lemma attempt_once_Inr:
  "(attempt_once E raw k a = Inr res) =
   (\<exists>out. ollama_call E k (PROMPT @ raw) = Inr out \<and> extract_json E out = Some (JObj res) \<and> res \<noteq> [])"
  by (auto simp: attempt_once_def split: sum.splits option.splits json.splits)

section \<open>Names and required fields\<close>

lemma sound_stripped: "strip f = f \<Longrightarrow> f \<noteq> [] \<Longrightarrow> sound_field E (SText f)"
  by (simp add: sound_field_def)

lemma sound_alias:
  assumes "ALIASES E k = Some v" and "truthy v" and "sql_bind v = Inr x"
  shows "sound_field E x"
proof (cases v)
  case (JStr s)
  with assms show ?thesis by (auto simp: sound_field_def)
next
  case (JInt n)
  with assms show ?thesis by (auto simp: sound_field_def split: if_splits)
next
  case (JBool b)
  with assms show ?thesis by (auto simp: sound_field_def)
next
  case (JFloat r)
  with assms show ?thesis by (auto simp: sound_field_def)
qed (use assms in simp_all)

lemma pre_route_Some:
  assumes "pre_route raw = Some (cat, clean)"
  shows "cat \<in> set [''admin'', ''projects'', ''ideas'', ''people'']" and "strip clean = clean"
  using assms by (auto simp: pre_route_def Let_def strip_idem split: if_splits)

lemma match_here_mem: "match_here ws s = Some w \<Longrightarrow> w \<in> set ws"
  by (induction ws) (auto split: if_splits)

lemma search_kin_mem: "search_kin seen s = Some w \<Longrightarrow> w \<in> set kinship"
  by (induction s arbitrary: seen) (auto split: if_splits option.splits dest: match_here_mem)

lemma title_kinship:
  assumes "w \<in> set kinship"
  shows "title w \<noteq> []" and "strip (title w) = title w"
proof -
  have t: "title ''mom'' = ''Mom''" "title ''mother'' = ''Mother''"
    "title ''dad'' = ''Dad''" "title ''father'' = ''Father''"
    by code_simp+
  have s: "strip ''Mom'' = ''Mom''" "strip ''Mother'' = ''Mother''"
    "strip ''Dad'' = ''Dad''" "strip ''Father'' = ''Father''"
    by code_simp+
  from assms have "w = ''mom'' \<or> w = ''mother'' \<or> w = ''dad'' \<or> w = ''father''"
    by (simp add: kinship_def)
  then show "title w \<noteq> []" and "strip (title w) = title w"
    using t s by auto
qed

lemma search_kin_kinship:
  assumes "w \<in> set kinship"
  shows "search_kin [] w = Some w"
proof -
  have "search_kin [] ''mom'' = Some ''mom''" "search_kin [] ''mother'' = Some ''mother''"
    "search_kin [] ''dad'' = Some ''dad''" "search_kin [] ''father'' = Some ''father''"
    by code_simp+
  moreover from assms have "w = ''mom'' \<or> w = ''mother'' \<or> w = ''dad'' \<or> w = ''father''"
    by (simp add: kinship_def)
  ultimately show ?thesis by auto
qed

lemma infer_sound:
  assumes "truthy (infer_person_name E raw)" and "sql_bind (infer_person_name E raw) = Inr x"
  shows "sound_field E x"
proof (cases "search_kin [] (lower (strip raw))")
  case None
  with assms show ?thesis by (simp add: infer_person_name_def)
next
  case (Some key)
  then have kin: "key \<in> set kinship" by (rule search_kin_mem)
  show ?thesis
  proof (cases "ALIASES E key")
    case None
    with Some have "infer_person_name E raw = JStr (title key)"
      by (simp add: infer_person_name_def)
    with assms title_kinship [OF kin] show ?thesis by (auto simp: sound_stripped)
  next
    case (Some v)
    with \<open>search_kin [] (lower (strip raw)) = Some key\<close>
    have "infer_person_name E raw = v" by (simp add: infer_person_name_def)
    with Some assms show ?thesis by (auto intro: sound_alias)
  qed
qed

text \<open>The name the prefix stage gives to a person.\<close>

lemma prefix_person_name_cases:
  assumes "strip clean = clean"
  shows "prefix_person_name E clean =
           (case ALIASES E (lower clean) of
              Some v \<Rightarrow> v
            | None \<Rightarrow> JStr (if lower clean \<in> set kinship then title (lower clean) else clean))"
proof (cases "ALIASES E (lower clean)")
  case (Some v)
  then show ?thesis using assms by (simp add: prefix_person_name_def)
next
  case None
  show ?thesis
  proof (cases "lower clean \<in> set kinship")
    case False
    with None assms show ?thesis by (simp add: prefix_person_name_def)
  next
    case True
    have "infer_person_name E clean = JStr (title (lower clean))"
      using search_kin_kinship [OF True] None assms
      by (simp add: infer_person_name_def)
    with title_kinship(1) [OF True] None True assms show ?thesis
      by (simp add: prefix_person_name_def py_or_def)
  qed
qed

lemma prefix_person_name_sound:
  assumes "strip clean = clean" and "clean \<noteq> []"
    and "truthy (prefix_person_name E clean)" and "sql_bind (prefix_person_name E clean) = Inr x"
  shows "sound_field E x"
proof (cases "ALIASES E (lower clean)")
  case (Some v)
  with assms show ?thesis
    by (auto simp: prefix_person_name_cases intro: sound_alias)
next
  case None
  with assms title_kinship [of "lower clean"] show ?thesis
    by (auto simp: prefix_person_name_cases intro: sound_stripped split: if_splits)
qed

lemma py_strip_stripped: "py_strip v = Inr x \<Longrightarrow> strip x = x"
  by (cases v) (auto simp: strip_idem)

section \<open>How an item ends\<close>

lemma flow_shape_Continue:
  "det \<in> D \<Longrightarrow> flow_shape E i D st (Continue (mark_review i cat conf mdl err det st))"
  unfolding flow_shape_def by blast

lemma flow_shape_Fallthrough:
  "sound_field E (required_field rec) \<Longrightarrow> flow_shape E i D st (Fallthrough (insert_record rec st))"
  unfolding flow_shape_def by blast

lemma flow_shape_mono: "flow_shape E i D st fl \<Longrightarrow> D \<subseteq> D' \<Longrightarrow> flow_shape E i D' st fl"
  unfolding flow_shape_def by blast

lemma prefix_insert_shape:
  assumes cat: "cat \<in> set [''admin'', ''projects'', ''ideas'', ''people'']"
    and st: "strip clean = clean" and ne: "clean \<noteq> []"
    and run: "prefix_insert E i raw cat clean st = Inr fl"
  shows "flow_shape E i {''missing person name (prefix)''} st fl"
proof -
  have c: "sound_field E (SText clean)" using st ne by (rule sound_stripped)
  from cat consider "cat = ''admin''" | "cat = ''projects''" | "cat = ''ideas''" | "cat = ''people''"
    by auto
  then show ?thesis
  proof cases
    case 1
    with run have "fl = Fallthrough (insert_record (AdminRec
              \<lparr>a_task = clean, a_due_date = SText [], a_status = ''open''\<rparr>) st)"
      by (simp add: prefix_insert_def)
    then show ?thesis using c by (simp add: flow_shape_Fallthrough)
  next
    case 2
    with run have "fl = Fallthrough (insert_record (ProjectRec
              \<lparr>pr_name = clean, pr_status = ''active'',
               pr_next_action = SText [], pr_notes = SText []\<rparr>) st)"
      by (simp add: prefix_insert_def)
    then show ?thesis using c by (simp add: flow_shape_Fallthrough)
  next
    case 3
    with run have "fl = Fallthrough (insert_record (IdeaRec
              \<lparr>i_title = clean, i_one_liner = SText [], i_notes = SText []\<rparr>) st)"
      by (simp add: prefix_insert_def)
    then show ?thesis using c by (simp add: flow_shape_Fallthrough)
  next
    case 4
    show ?thesis
    proof (cases "truthy (prefix_person_name E clean)")
      case False
      with 4 run have "fl = Continue (mark_review i ''people'' 1 ''prefix'' ''missing person name''
                                     ''missing person name (prefix)'' st)"
        by (simp add: prefix_insert_def)
      then show ?thesis by (simp add: flow_shape_Continue)
    next
      case True
      with 4 run obtain nm where b: "sql_bind (prefix_person_name E clean) = Inr nm"
        and fl: "fl = Fallthrough (insert_record (PeopleRec
                       \<lparr>p_name = nm, p_context = SText [],
                        p_follow_up = SText raw, p_last_contact = SText []\<rparr>) st)"
        by (auto simp: prefix_insert_def Let_def split: sum.splits)
      from prefix_person_name_sound [OF st ne True b] fl show ?thesis
        by (simp add: flow_shape_Fallthrough)
    qed
  qed
qed

lemma fallback_people_shape:
  assumes "fallback_people E i raw conf flds st = Inr fl"
  shows "flow_shape E i {''missing person name''} st fl"
proof (cases flds)
  case (JObj f)
  show ?thesis
  proof (cases "py_strip (py_or (obj_get f ''name'' JNull) (JStr []))")
    case (Inl e)
    with JObj assms show ?thesis by (simp add: fallback_people_def)
  next
    case (Inr name0)
    define name where "name = (if name0 = [] then infer_person_name E raw else JStr name0)"
    show ?thesis
    proof (cases "truthy name")
      case False
      with JObj Inr assms show ?thesis
        by (auto simp: fallback_people_def name_def Let_def flow_shape_Continue)
    next
      case True
      with JObj Inr assms obtain nm c fu lc where b: "sql_bind name = Inr nm"
        and fl: "fl = Fallthrough (insert_record (PeopleRec
                       \<lparr>p_name = nm, p_context = c,
                        p_follow_up = fu, p_last_contact = lc\<rparr>) st)"
        by (auto simp: fallback_people_def name_def Let_def split: sum.splits if_splits)
      have "sound_field E nm"
      proof (cases "name0 = []")
        case True
        with \<open>truthy name\<close> b infer_sound [of E raw nm] show ?thesis by (simp add: name_def)
      next
        case False
        with b py_strip_stripped [OF Inr] show ?thesis
          by (auto simp: name_def intro: sound_stripped)
      qed
      with fl show ?thesis by (simp add: flow_shape_Fallthrough)
    qed
  qed
qed (use assms in \<open>simp_all add: fallback_people_def\<close>)

lemma fallback_projects_shape:
  assumes "fallback_projects i conf flds st = Inr fl"
  shows "flow_shape E i {''missing project name''} st fl"
proof (cases flds)
  case (JObj f)
  show ?thesis
  proof (cases "py_strip (py_or (obj_get f ''name'' JNull) (JStr []))")
    case (Inl e)
    with JObj assms show ?thesis by (simp add: fallback_projects_def)
  next
    case (Inr name)
    show ?thesis
    proof (cases "name = []")
      case True
      with JObj Inr assms show ?thesis
        by (auto simp: fallback_projects_def flow_shape_Continue)
    next
      case False
      have "sound_field E (SText name)"
        using False py_strip_stripped [OF Inr] by (auto intro: sound_stripped)
      with JObj Inr assms False show ?thesis
        by (auto simp: fallback_projects_def Let_def flow_shape_Fallthrough
            split: sum.splits if_splits)
    qed
  qed
qed (use assms in \<open>simp_all add: fallback_projects_def\<close>)

lemma fallback_ideas_shape:
  assumes "fallback_ideas i conf result flds st = Inr fl"
  shows "flow_shape E i {''missing idea title''} st fl"
proof (cases flds)
  case (JObj f)
  show ?thesis
  proof (cases "py_strip (py_or (py_or (obj_get f ''title'' JNull) (obj_get result ''title'' JNull))
                                (JStr []))")
    case (Inl e)
    with JObj assms show ?thesis by (simp add: fallback_ideas_def)
  next
    case (Inr title0)
    show ?thesis
    proof (cases "title0 = []")
      case True
      with JObj Inr assms show ?thesis
        by (auto simp: fallback_ideas_def flow_shape_Continue)
    next
      case False
      have "sound_field E (SText title0)"
        using False py_strip_stripped [OF Inr] by (auto intro: sound_stripped)
      with JObj Inr assms False show ?thesis
        by (auto simp: fallback_ideas_def Let_def flow_shape_Fallthrough
            split: sum.splits if_splits)
    qed
  qed
qed (use assms in \<open>simp_all add: fallback_ideas_def\<close>)

lemma fallback_admin_shape:
  assumes "fallback_admin i conf flds st = Inr fl"
  shows "flow_shape E i {''missing admin task''} st fl"
proof (cases flds)
  case (JObj f)
  show ?thesis
  proof (cases "py_strip (py_or (obj_get f ''task'' JNull) (JStr []))")
    case (Inl e)
    with JObj assms show ?thesis by (simp add: fallback_admin_def)
  next
    case (Inr task)
    show ?thesis
    proof (cases "task = []")
      case True
      with JObj Inr assms show ?thesis
        by (auto simp: fallback_admin_def flow_shape_Continue)
    next
      case False
      have "sound_field E (SText task)"
        using False py_strip_stripped [OF Inr] by (auto intro: sound_stripped)
      with JObj Inr assms False show ?thesis
        by (auto simp: fallback_admin_def Let_def flow_shape_Fallthrough
            split: sum.splits if_splits)
    qed
  qed
qed (use assms in \<open>simp_all add: fallback_admin_def\<close>)

lemma valid_category_Some:
  "valid_category c = Some cat \<Longrightarrow>
     c = JStr cat \<and> cat \<in> set [''people'', ''projects'', ''ideas'', ''admin'']"
  by (cases c) (auto simp: valid_category_def split: if_splits)

lemma fallback_insert_shape:
  assumes "cat \<in> set [''people'', ''projects'', ''ideas'', ''admin'']"
    and "fallback_insert E i raw cat conf result flds st = Inr fl"
  shows "flow_shape E i missing_texts st fl"
proof -
  from assms consider
      "fallback_people E i raw conf flds st = Inr fl"
    | "fallback_projects i conf flds st = Inr fl"
    | "fallback_ideas i conf result flds st = Inr fl"
    | "fallback_admin i conf flds st = Inr fl"
    by (auto simp: fallback_insert_def split: if_splits)
  then show ?thesis
  proof cases
    case 1
    from flow_shape_mono [OF fallback_people_shape [OF 1]] show ?thesis
      by (simp add: missing_texts_def)
  next
    case 2
    from flow_shape_mono [OF fallback_projects_shape [OF 2]] show ?thesis
      by (simp add: missing_texts_def)
  next
    case 3
    from flow_shape_mono [OF fallback_ideas_shape [OF 3]] show ?thesis
      by (simp add: missing_texts_def)
  next
    case 4
    from flow_shape_mono [OF fallback_admin_shape [OF 4]] show ?thesis
      by (simp add: missing_texts_def)
  qed
qed

lemma item_shape_review:
  "det \<in> D \<Longrightarrow> item_shape E i D p st (mark_review i cat conf mdl err det st)"
  unfolding item_shape_def by blast

lemma item_shape_processed:
  "sound_field E (required_field rec) \<Longrightarrow>
     item_shape E i D p st (mark_processed i cat conf mdl p (insert_record rec st))"
  unfolding item_shape_def by blast

lemma item_shape_mono: "item_shape E i D p st st' \<Longrightarrow> D \<subseteq> D' \<Longrightarrow> item_shape E i D' p st st'"
  unfolding item_shape_def by blast

lemma flow_to_item:
  assumes "flow_shape E i D st fl"
  shows "item_shape E i D p st
           (case fl of Continue st1 \<Rightarrow> st1
                     | Fallthrough st1 \<Rightarrow> mark_processed i cat conf mdl p st1)"
  using assms unfolding flow_shape_def
  by (elim disjE exE conjE) (simp_all add: item_shape_review item_shape_processed)

lemma prefix_stage_shape:
  assumes "pre_route raw = Some (cat, clean)"
    and "prefix_stage E i raw cat clean st = Inr st'"
  shows "item_shape E i (prefix_texts cat clean) (''prefix_route -> '' @ cat) st st'"
proof (cases "clean = []")
  case True
  with assms(2) show ?thesis
    by (auto simp: prefix_stage_def prefix_texts_def item_shape_review)
next
  case False
  with assms(2) obtain fl where fl: "prefix_insert E i raw cat clean st = Inr fl"
    and st': "st' = (case fl of Continue st1 \<Rightarrow> st1
                 | Fallthrough st1 \<Rightarrow>
                     mark_processed i cat 1 ''prefix'' (''prefix_route -> '' @ cat) st1)"
    by (auto simp: prefix_stage_def split: sum.splits flow.splits)
  from prefix_insert_shape [OF pre_route_Some [OF assms(1)] False fl]
  have "flow_shape E i (prefix_texts cat clean) st fl"
    using False by (simp add: prefix_texts_def)
  from flow_to_item [OF this, where p = "''prefix_route -> '' @ cat" and cat = cat
      and conf = 1 and mdl = "''prefix''"]
  show ?thesis unfolding st' .
qed

lemma route_result_shape:
  assumes "route_result E i raw result st = Inr st'"
  shows "item_shape E i (review_texts E result) (take 2000 (json_dumps E (JObj result))) st st'"
proof (cases "py_float E (py_or (obj_get result ''confidence'' (JFloat 0)) (JFloat 0))")
  case (Inl e)
  with assms show ?thesis by (simp add: route_result_def)
next
  case (Inr conf)
  have d: "take 2000 (json_dumps E (JObj result)) \<in> review_texts E result"
    by (simp add: review_texts_def)
  show ?thesis
  proof (cases "valid_category (obj_get result ''category'' (JStr ''unknown''))")
    case None
    with Inr assms have "st' = mark_review i ''unknown'' conf MODEL []
                                 (take 2000 (json_dumps E (JObj result))) st"
      by (auto simp: route_result_def Let_def)
    with d show ?thesis by (simp add: item_shape_review)
  next
    case (Some cat)
    show ?thesis
    proof (cases "conf < CONF_THRESHOLD")
      case True
      with Inr Some assms have "st' = mark_review i cat conf MODEL []
                                 (take 2000 (json_dumps E (JObj result))) st"
        by (auto simp: route_result_def Let_def)
      with d show ?thesis by (simp add: item_shape_review)
    next
      case False
      let ?flds = "py_or (obj_get result ''fields'' (JObj [])) (JObj [])"
      from Inr Some False assms obtain fl
        where fl: "fallback_insert E i raw cat conf result ?flds st = Inr fl"
          and st': "st' = (case fl of Continue st1 \<Rightarrow> st1
                 | Fallthrough st1 \<Rightarrow>
                     mark_processed i cat conf MODEL
                       (take 2000 (json_dumps E (JObj result))) st1)"
        by (auto simp: route_result_def Let_def split: sum.splits flow.splits)
      from valid_category_Some [OF Some] have "cat \<in> set [''people'', ''projects'', ''ideas'', ''admin'']"
        by simp
      from fallback_insert_shape [OF this fl] have "flow_shape E i missing_texts st fl" .
      then have "flow_shape E i (review_texts E result) st fl"
        by (rule flow_shape_mono) (auto simp: review_texts_def)
      from flow_to_item [OF this] st' show ?thesis by simp
    qed
  qed
qed

text \<open>The three ways the processing of an item completes.\<close>

lemma process_item_shape:
  assumes "process_item E i raw st = Inr st'"
  shows "(\<exists>cat clean. pre_route raw = Some (cat, clean)
            \<and> item_shape E i (prefix_texts cat clean) (''prefix_route -> '' @ cat) st st')
       \<or> (\<exists>err k. pre_route raw = None
            \<and> retry_loop E raw (MAX_RETRIES + 1) 0 (ollama_calls st) [] = (None, err, k)
            \<and> st' = log_event ''needs_review'' (Some i) err
                      (update_inbox i (set_failed err MODEL) (st\<lparr>ollama_calls := k\<rparr>)))
       \<or> (\<exists>result err k. pre_route raw = None
            \<and> retry_loop E raw (MAX_RETRIES + 1) 0 (ollama_calls st) [] = (Some result, err, k)
            \<and> item_shape E i (review_texts E result) (take 2000 (json_dumps E (JObj result)))
                (st\<lparr>ollama_calls := k\<rparr>) st')"
proof (cases "pre_route raw")
  case (Some p)
  obtain cat clean where p: "p = (cat, clean)" by (cases p)
  from Some p have pr: "pre_route raw = Some (cat, clean)" by simp
  with assms have "prefix_stage E i raw cat clean st = Inr st'"
    by (simp add: process_item_def)
  from prefix_stage_shape [OF pr this] pr show ?thesis by blast
next
  case None
  obtain res err k where r: "retry_loop E raw (MAX_RETRIES + 1) 0 (ollama_calls st) [] = (res, err, k)"
    by (cases "retry_loop E raw (MAX_RETRIES + 1) 0 (ollama_calls st) []") auto
  show ?thesis
  proof (cases res)
    case None
    with \<open>pre_route raw = None\<close> r assms show ?thesis
      by (auto simp: process_item_def fallback_stage_def)
  next
    case (Some result)
    with \<open>pre_route raw = None\<close> r assms
    have "route_result E i raw result (st\<lparr>ollama_calls := k\<rparr>) = Inr st'"
      by (simp add: process_item_def fallback_stage_def)
    from route_result_shape [OF this] \<open>pre_route raw = None\<close> r Some show ?thesis by blast
  qed
qed


section \<open>What an item leaves in the store\<close>

lemma insert_record_other [simp]:
  "inbox (insert_record rec st) = inbox st"
  "log_events (insert_record rec st) = log_events st"
  "ollama_calls (insert_record rec st) = ollama_calls st"
  by (cases rec; simp add: insert_record.simps)+

lemma tables_insert_calls [simp]:
  "tables (insert_record rec (st\<lparr>ollama_calls := k\<rparr>)) = tables (insert_record rec st)"
  by (cases rec) (simp_all add: insert_record.simps tables_def)

lemma tables_marks [simp]:
  "tables (mark_review i cat conf mdl err det st) = tables st"
  "tables (mark_processed i cat conf mdl det st) = tables st"
  "tables (log_event ev j d st) = tables st"
  "tables (update_inbox i f st) = tables st"
  "tables (st\<lparr>ollama_calls := k\<rparr>) = tables st"
  by (simp_all add: tables_def mark_review_def mark_processed_def log_event_def update_inbox_def)

lemma status_marks:
  "map status (inbox (mark_review i cat conf mdl err det st)) =
     map (\<lambda>r. if row_id r = i then ''needs_review'' else status r) (inbox st)"
  "map status (inbox (mark_processed i cat conf mdl det st)) =
     map (\<lambda>r. if row_id r = i then ''processed'' else status r) (inbox st)"
  "map status (inbox (log_event ''needs_review'' (Some i) err
                        (update_inbox i (set_failed err mdl) st))) =
     map (\<lambda>r. if row_id r = i then ''needs_review'' else status r) (inbox st)"
  by (simp_all add: mark_review_def mark_processed_def log_event_def update_inbox_def
      set_needs_review_def set_processed_def set_failed_def)

lemma log_marks:
  "log_events (mark_review i cat conf mdl err det st) =
     log_events st @ [\<lparr>event = ''needs_review'', inbox_id = Some i, details = take 2000 det\<rparr>]"
  "log_events (mark_processed i cat conf mdl det st) =
     log_events st @ [\<lparr>event = ''processed'', inbox_id = Some i, details = take 2000 det\<rparr>]"
  by (simp_all add: mark_review_def mark_processed_def log_event_def update_inbox_def)

section \<open>More on the retry loop\<close>

lemma retry_loop_None:
  "fst (retry_loop E raw n a k err) = None \<Longrightarrow> \<forall>j<n. isl (attempt_once E raw (k + j) (a + j))"
proof (induction n arbitrary: a k err)
  case 0
  show ?case by simp
next
  case (Suc n)
  show ?case
  proof (cases "attempt_once E raw k a")
    case (Inr r)
    with Suc.prems show ?thesis by simp
  next
    case (Inl e)
    with Suc.prems have "fst (retry_loop E raw n (Suc a) (Suc k) e) = None" by simp
    from Suc.IH [OF this] have ih: "\<forall>j<n. isl (attempt_once E raw (Suc k + j) (Suc a + j))" .
    show ?thesis
    proof (intro allI impI)
      fix j assume "j < Suc n"
      show "isl (attempt_once E raw (k + j) (a + j))"
      proof (cases j)
        case 0
        with Inl show ?thesis by simp
      next
        case (Suc j')
        with \<open>j < Suc n\<close> ih have "isl (attempt_once E raw (Suc k + j') (Suc a + j'))" by simp
        with Suc show ?thesis by simp
      qed
    qed
  qed
qed

lemma attempt_once_Inl:
  "isl (attempt_once E raw k a) \<Longrightarrow>
     projl (attempt_once E raw k a) =
       (case ollama_call E k (PROMPT @ raw) of
          Inl msg \<Rightarrow> msg
        | Inr out \<Rightarrow> ''invalid json (attempt '' @ str_nat a @ '')'')"
  by (auto simp: attempt_once_def split: sum.splits option.splits json.splits if_splits)

lemma str_nat_2: "str_nat 2 = ''2''"
  by code_simp

lemma max_attempts: "MAX_RETRIES + 1 = 3"
  by (simp add: MAX_RETRIES_def)

lemma retry_loop_fails_thrice:
  assumes "\<forall>j < MAX_RETRIES + 1. isl (attempt_once E raw (k + j) j)"
  shows "retry_loop E raw (MAX_RETRIES + 1) 0 k [] =
           (None,
            (case ollama_call E (k + 2) (PROMPT @ raw) of
               Inl msg \<Rightarrow> msg
             | Inr out \<Rightarrow> ''invalid json (attempt 2)''),
            k + 3)"
proof -
  from assms have a: "\<forall>j<3. isl (attempt_once E raw (k + j) (0 + j))"
    unfolding max_attempts by simp
  have "(2::nat) < 3" by simp
  with a have "isl (attempt_once E raw (k + 2) (0 + 2))" by blast
  then have "isl (attempt_once E raw (k + 2) 2)" by (simp only: add_0)
  from attempt_once_Inl [OF this]
  have "projl (attempt_once E raw (k + 2) 2) =
          (case ollama_call E (k + 2) (PROMPT @ raw) of
             Inl msg \<Rightarrow> msg
           | Inr out \<Rightarrow> ''invalid json (attempt 2)'')"
    by (simp add: str_nat_2 split: sum.splits)
  with retry_loop_all_fail [OF a, of "[]"] show ?thesis
    unfolding max_attempts by (simp add: numeral_2_eq_2)
qed

section \<open>The brace-delimited blob\<close>





section \<open>The loop over the rows\<close>














section \<open>Helpers for runs on concrete inputs\<close>

lemma all_attempts:
  assumes "P 0" and "P 1" and "P 2"
  shows "\<forall>j < MAX_RETRIES + 1. P j"
proof (intro allI impI)
  fix j :: nat
  assume "j < MAX_RETRIES + 1"
  then have "j = 0 \<or> j = 1 \<or> j = 2" by (auto simp: MAX_RETRIES_def)
  with assms show "P j" by blast
qed

lemma strip_replicate: "\<not> is_space c \<Longrightarrow> strip (replicate n c) = replicate n c"
  by (cases n)
     (simp_all add: strip_def lstrip_def rstrip_def replicate_append_same [symmetric]
        del: replicate.simps)

lemma strip_mom: "strip ''mom'' = ''mom''"
  by code_simp

lemma lower_mom: "lower ''mom'' = ''mom''"
  by code_simp

section \<open>The fallback stage when every attempt fails\<close>

lemma fallback_all_fail:
  assumes "pre_route raw = None"
    and "\<forall>j < MAX_RETRIES + 1. isl (attempt_once E raw (ollama_calls st + j) j)"
  shows "let last_err = (case ollama_call E (ollama_calls st + 2) (PROMPT @ raw) of
                           Inl msg \<Rightarrow> msg
                         | Inr out \<Rightarrow> ''invalid json (attempt 2)'')
         in process_item E i raw st =
              Inr (st\<lparr>inbox := map (\<lambda>r. if row_id r = i
                                         then r\<lparr>status := ''needs_review'',
                                                error := Some last_err,
                                                model := Some MODEL\<rparr>
                                         else r) (inbox st),
                      log_events := log_events st @
                        [\<lparr>event = ''needs_review'', inbox_id = Some i,
                          details = take 2000 last_err\<rparr>],
                      ollama_calls := ollama_calls st + 3\<rparr>)"
  using assms(1) retry_loop_fails_thrice [OF assms(2)]
  by (simp add: process_item_def fallback_stage_def Let_def log_event_def update_inbox_def
      set_failed_def)

section \<open>Claim C1: no category record without a required field\<close>




section \<open>Claim C2: an item with a recognized prefix\<close>

text \<open>
  Claim C2, amended. For every raw text that starts with a recognized prefix, in any
  case, followed by content that is not empty after trimming: under an admin, project(s)
  or idea(s) prefix the item becomes \<open>processed\<close> with the category of the prefix and
  confidence 1, and exactly one record is created, whose required field is the trimmed
  remainder. Under a person or people prefix the name of the record is the remainder
  resolved: the value of the alias when the remainder in lower case is an alias, else the
  capitalised word when the remainder is mom, mother, dad or father in any case, else the
  remainder itself; when the alias value is empty (or null, zero, false) the item becomes
  \<open>needs_review\<close> and no record is created, and when the alias value is one the store
  cannot bind (a list or an object that is not empty, an integer out of range) the
  \<open>INSERT\<close> raises and the processing of the item does not complete.
\<close>

theorem prefix_item_processed:
  assumes tab: "(pfx, cat) \<in> set prefix_table"
    and low: "lower (take (length pfx) raw) = pfx"
    and rem: "rest = strip (drop (length pfx) raw)" and ne: "rest \<noteq> []"
  shows "let filed = (\<lambda>st1. st1\<lparr>inbox := map (\<lambda>r. if row_id r = i
                                    then r\<lparr>status := ''processed'', category := Some cat,
                                           confidence := Some 1, model := Some ''prefix'',
                                           error := Some []\<rparr>
                                    else r) (inbox st),
                              log_events := log_events st @
                                [\<lparr>event = ''processed'', inbox_id = Some i,
                                  details = ''prefix_route -> '' @ cat\<rparr>]\<rparr>);
             name = (case ALIASES E (lower rest) of
                       Some v \<Rightarrow> v
                     | None \<Rightarrow>
                         JStr (if lower rest \<in> set kinship then title (lower rest) else rest))
         in (cat = ''admin'' \<longrightarrow>
               process_item E i raw st =
                 Inr (filed (st\<lparr>admin := admin st @
                        [\<lparr>a_task = rest, a_due_date = SText [], a_status = ''open''\<rparr>]\<rparr>)))
          \<and> (cat = ''projects'' \<longrightarrow>
               process_item E i raw st =
                 Inr (filed (st\<lparr>projects := projects st @
                        [\<lparr>pr_name = rest, pr_status = ''active'',
                          pr_next_action = SText [], pr_notes = SText []\<rparr>]\<rparr>)))
          \<and> (cat = ''ideas'' \<longrightarrow>
               process_item E i raw st =
                 Inr (filed (st\<lparr>ideas := ideas st @
                        [\<lparr>i_title = rest, i_one_liner = SText [], i_notes = SText []\<rparr>]\<rparr>)))
          \<and> (cat = ''people'' \<and> truthy name \<and> sql_bind name = Inr nm \<longrightarrow>
               process_item E i raw st =
                 Inr (filed (st\<lparr>people := people st @
                        [\<lparr>p_name = nm, p_context = SText [],
                          p_follow_up = SText raw, p_last_contact = SText []\<rparr>]\<rparr>)))
          \<and> (cat = ''people'' \<and> truthy name \<and> sql_bind name = Inl e \<longrightarrow>
               process_item E i raw st = Inl e)
          \<and> (cat = ''people'' \<and> \<not> truthy name \<longrightarrow>
               process_item E i raw st =
                 Inr (st\<lparr>inbox := map (\<lambda>r. if row_id r = i
                                    then r\<lparr>status := ''needs_review'', category := Some ''people'',
                                           confidence := Some 1, model := Some ''prefix'',
                                           error := Some ''missing person name''\<rparr>
                                    else r) (inbox st),
                         log_events := log_events st @
                           [\<lparr>event = ''needs_review'', inbox_id = Some i,
                             details = ''missing person name (prefix)''\<rparr>]\<rparr>))"
proof -
  from pre_route_table [OF tab low] rem
  have route: "pre_route raw = Some (cat, rest)" by simp
  from pre_route_Some(2) [OF route] have st: "strip rest = rest" .
  note name = prefix_person_name_cases [OF st, of E]
  show ?thesis
    using ne
    by (simp add: Let_def process_item_def route prefix_stage_def prefix_insert_def name
        mark_processed_def mark_review_def log_event_def update_inbox_def set_processed_def
        set_needs_review_def insert_record.simps)
qed

theorem prefix_item_processed_witness:
  "(''project:'', ''projects'') \<in> set prefix_table
   \<and> lower (take (length ''project:'') ''Project: Migrate DB '') = ''project:''
   \<and> ''Migrate DB'' = strip (drop (length ''project:'') ''Project: Migrate DB '')
   \<and> ''Migrate DB'' \<noteq> []
   \<and> process_item (test_env [] []) 8 ''Project: Migrate DB ''
        (store_of [unprocessed 8 ''Project: Migrate DB '']) =
      Inr \<lparr>inbox = [\<lparr>row_id = 8, raw_text = ''Project: Migrate DB '', status = ''processed'',
                     category = Some ''projects'', confidence = Some 1,
                     model = Some ''prefix'', error = Some []\<rparr>],
           people = [],
           projects = [\<lparr>pr_name = ''Migrate DB'', pr_status = ''active'',
                         pr_next_action = SText [], pr_notes = SText []\<rparr>],
           ideas = [], admin = [],
           log_events = [\<lparr>event = ''processed'', inbox_id = Some 8,
                          details = ''prefix_route -> projects''\<rparr>],
           ollama_calls = 0\<rparr>
   \<and> (''people:'', ''people'') \<in> set prefix_table
   \<and> lower (take (length ''people:'') ''people: DAD'') = ''people:''
   \<and> ''DAD'' = strip (drop (length ''people:'') ''people: DAD'')
   \<and> ''DAD'' \<noteq> []
   \<and> process_item (test_env [] []) 9 ''people: DAD'' (store_of [unprocessed 9 ''people: DAD'']) =
      Inr \<lparr>inbox = [\<lparr>row_id = 9, raw_text = ''people: DAD'', status = ''processed'',
                     category = Some ''people'', confidence = Some 1,
                     model = Some ''prefix'', error = Some []\<rparr>],
           people = [\<lparr>p_name = SText ''Dad'', p_context = SText [],
                       p_follow_up = SText ''people: DAD'', p_last_contact = SText []\<rparr>],
           projects = [], ideas = [], admin = [],
           log_events = [\<lparr>event = ''processed'', inbox_id = Some 9,
                          details = ''prefix_route -> people''\<rparr>],
           ollama_calls = 0\<rparr>
   \<and> (''person:'', ''people'') \<in> set prefix_table
   \<and> lower (take (length ''person:'') ''person: Mom'') = ''person:''
   \<and> ''Mom'' = strip (drop (length ''person:'') ''person: Mom'')
   \<and> ''Mom'' \<noteq> []
   \<and> ALIASES (test_env [(''Mom'', JArr [JStr ''Jane'', JStr ''Doe''])] []) (lower ''Mom'') =
        Some (JArr [JStr ''Jane'', JStr ''Doe''])
   \<and> process_item (test_env [(''Mom'', JArr [JStr ''Jane'', JStr ''Doe''])] []) 2 ''person: Mom''
        (store_of [unprocessed 2 ''person: Mom'']) = Inl BindError"
proof -
  have a1: "(''project:'', ''projects'') \<in> set prefix_table" by (simp add: prefix_table_def)
  have a2: "lower (take (length ''project:'') ''Project: Migrate DB '') = ''project:''"
    by code_simp
  have a3: "''Migrate DB'' = strip (drop (length ''project:'') ''Project: Migrate DB '')"
    by code_simp
  have a4: "''Migrate DB'' \<noteq> []" by simp
  have b1: "(''people:'', ''people'') \<in> set prefix_table" by (simp add: prefix_table_def)
  have b2: "lower (take (length ''people:'') ''people: DAD'') = ''people:''" by code_simp
  have b3: "''DAD'' = strip (drop (length ''people:'') ''people: DAD'')" by code_simp
  have b4: "''DAD'' \<noteq> []" by simp
  have dad: "lower ''DAD'' = ''dad''" "title ''dad'' = ''Dad''" by code_simp+
  have c1: "(''person:'', ''people'') \<in> set prefix_table" by (simp add: prefix_table_def)
  have c2: "lower (take (length ''person:'') ''person: Mom'') = ''person:''" by code_simp
  have c3: "''Mom'' = strip (drop (length ''person:'') ''person: Mom'')" by code_simp
  have c4: "''Mom'' \<noteq> []" by simp
  have c5: "ALIASES (test_env [(''Mom'', JArr [JStr ''Jane'', JStr ''Doe''])] []) (lower ''Mom'') =
              Some (JArr [JStr ''Jane'', JStr ''Doe''])"
    by code_simp
  have a: "process_item (test_env [] []) 8 ''Project: Migrate DB ''
             (store_of [unprocessed 8 ''Project: Migrate DB '']) =
           Inr \<lparr>inbox = [\<lparr>row_id = 8, raw_text = ''Project: Migrate DB '',
                          status = ''processed'', category = Some ''projects'',
                          confidence = Some 1, model = Some ''prefix'', error = Some []\<rparr>],
                people = [],
                projects = [\<lparr>pr_name = ''Migrate DB'', pr_status = ''active'',
                              pr_next_action = SText [], pr_notes = SText []\<rparr>],
                ideas = [], admin = [],
                log_events = [\<lparr>event = ''processed'', inbox_id = Some 8,
                               details = ''prefix_route -> projects''\<rparr>],
                ollama_calls = 0\<rparr>"
    using prefix_item_processed [OF a1 a2 a3 a4, where E = "test_env [] []" and i = 8
        and st = "store_of [unprocessed 8 ''Project: Migrate DB '']"]
    by (simp add: Let_def store_of_def unprocessed_def)
  have b: "process_item (test_env [] []) 9 ''people: DAD''
             (store_of [unprocessed 9 ''people: DAD'']) =
           Inr \<lparr>inbox = [\<lparr>row_id = 9, raw_text = ''people: DAD'', status = ''processed'',
                          category = Some ''people'', confidence = Some 1,
                          model = Some ''prefix'', error = Some []\<rparr>],
                people = [\<lparr>p_name = SText ''Dad'', p_context = SText [],
                            p_follow_up = SText ''people: DAD'', p_last_contact = SText []\<rparr>],
                projects = [], ideas = [], admin = [],
                log_events = [\<lparr>event = ''processed'', inbox_id = Some 9,
                               details = ''prefix_route -> people''\<rparr>],
                ollama_calls = 0\<rparr>"
    using prefix_item_processed [OF b1 b2 b3 b4, where E = "test_env [] []" and i = 9
        and st = "store_of [unprocessed 9 ''people: DAD'']" and nm = "SText ''Dad''"]
    by (simp add: Let_def store_of_def unprocessed_def test_env_def load_aliases_def dad
        kinship_def)
  have c: "process_item (test_env [(''Mom'', JArr [JStr ''Jane'', JStr ''Doe''])] []) 2
             ''person: Mom'' (store_of [unprocessed 2 ''person: Mom'']) = Inl BindError"
    using prefix_item_processed [OF c1 c2 c3 c4,
        where E = "test_env [(''Mom'', JArr [JStr ''Jane'', JStr ''Doe''])] []" and i = 2
        and st = "store_of [unprocessed 2 ''person: Mom'']" and e = BindError] c5
    by (simp add: Let_def)
  from a1 a2 a3 a4 a b1 b2 b3 b4 b c1 c2 c3 c4 c5 c show ?thesis by blast
qed

text \<open>
  The claim as first stated fails for a person: \<open>person: mom\<close>, with no alias, creates
  a people record named \<open>Mom\<close>, which is not the trimmed remainder \<open>mom\<close>.
\<close>

theorem person_name_counterexample:
  "lower (take (length ''person:'') ''person: mom'') = ''person:''
   \<and> strip (drop (length ''person:'') ''person: mom'') = ''mom''
   \<and> process_item (test_env [] []) 1 ''person: mom'' (store_of [unprocessed 1 ''person: mom'']) =
      Inr \<lparr>inbox = [\<lparr>row_id = 1, raw_text = ''person: mom'', status = ''processed'',
                     category = Some ''people'', confidence = Some 1,
                     model = Some ''prefix'', error = Some []\<rparr>],
           people = [\<lparr>p_name = SText ''Mom'', p_context = SText [],
                       p_follow_up = SText ''person: mom'', p_last_contact = SText []\<rparr>],
           projects = [], ideas = [], admin = [],
           log_events = [\<lparr>event = ''processed'', inbox_id = Some 1,
                          details = ''prefix_route -> people''\<rparr>],
           ollama_calls = 0\<rparr>
   \<and> ''Mom'' \<noteq> ''mom''"
  by code_simp

section \<open>Claim C3: exceptions and the loop over the items\<close>




section \<open>Claim C4: the retry loop\<close>

text \<open>
  Claim C4, amended. The retry loop makes at most \<open>MAX_RETRIES + 1 = 3\<close> runs of the
  classifier, and it stops at the first attempt whose output parses to an object that is
  not empty, with that object as the result and no further run. An empty object counts as
  a failed attempt.
\<close>

theorem retry_stops_at_first_nonempty_object:
  "MAX_RETRIES + 1 = 3
   \<and> snd (snd (retry_loop E raw (MAX_RETRIES + 1) 0 k [])) \<le> k + 3
   \<and> (\<forall>m out res.
         m < MAX_RETRIES + 1
         \<longrightarrow> (\<forall>j<m. isl (attempt_once E raw (k + j) j))
         \<longrightarrow> ollama_call E (k + m) (PROMPT @ raw) = Inr out
         \<longrightarrow> extract_json E out = Some (JObj res)
         \<longrightarrow> res \<noteq> []
         \<longrightarrow> fst (retry_loop E raw (MAX_RETRIES + 1) 0 k []) = Some res
             \<and> snd (snd (retry_loop E raw (MAX_RETRIES + 1) 0 k [])) = k + m + 1)"
proof (intro conjI allI impI)
  show "MAX_RETRIES + 1 = 3" by (rule max_attempts)
  show "snd (snd (retry_loop E raw (MAX_RETRIES + 1) 0 k [])) \<le> k + 3"
    unfolding max_attempts using retry_loop_calls [of k E raw 3 0 "[]"] by blast
next
  fix m out res
  assume m: "m < MAX_RETRIES + 1"
    and f: "\<forall>j<m. isl (attempt_once E raw (k + j) j)"
    and o: "ollama_call E (k + m) (PROMPT @ raw) = Inr out"
    and x: "extract_json E out = Some (JObj res)" and ne: "res \<noteq> []"
  from o x ne have s: "attempt_once E raw (k + m) (0 + m) = Inr res"
    by (simp add: attempt_once_Inr)
  from f have f': "\<forall>j<m. isl (attempt_once E raw (k + j) (0 + j))" by simp
  from retry_loop_first_success [OF f' s m, of "[]"]
  show "fst (retry_loop E raw (MAX_RETRIES + 1) 0 k []) = Some res"
    and "snd (snd (retry_loop E raw (MAX_RETRIES + 1) 0 k [])) = k + m + 1"
    by blast+
qed

theorem retry_stops_at_first_nonempty_object_witness:
  "(1::nat) < MAX_RETRIES + 1
   \<and> isl (attempt_once (test_env [] [Exited 0 ''{}'' [], Exited 0 reply_project []])
              ''move the database'' (0 + 0) 0)
   \<and> ollama_call (test_env [] [Exited 0 ''{}'' [], Exited 0 reply_project []]) (0 + 1)
        (PROMPT @ ''move the database'') = Inr reply_project
   \<and> extract_json (test_env [] [Exited 0 ''{}'' [], Exited 0 reply_project []]) reply_project =
        Some (JObj [(''category'', JStr ''projects''),
                    (''confidence'', JFloat (8106479329266893 / 9007199254740992)),
                    (''fields'', JObj [(''name'', JStr ''Migrate DB'')])])
   \<and> fst (retry_loop (test_env [] [Exited 0 ''{}'' [], Exited 0 reply_project []])
            ''move the database'' (MAX_RETRIES + 1) 0 0 []) =
        Some [(''category'', JStr ''projects''),
              (''confidence'', JFloat (8106479329266893 / 9007199254740992)),
              (''fields'', JObj [(''name'', JStr ''Migrate DB'')])]
   \<and> snd (snd (retry_loop (test_env [] [Exited 0 ''{}'' [], Exited 0 reply_project []])
                 ''move the database'' (MAX_RETRIES + 1) 0 0 [])) = 0 + 1 + 1"
proof -
  let ?E = "test_env [] [Exited 0 ''{}'' [], Exited 0 reply_project []]"
  let ?res = "[(''category'', JStr ''projects''),
               (''confidence'', JFloat (8106479329266893 / 9007199254740992)),
               (''fields'', JObj [(''name'', JStr ''Migrate DB'')])]"
  have m: "(1::nat) < MAX_RETRIES + 1" by (simp add: MAX_RETRIES_def)
  have f0: "isl (attempt_once ?E ''move the database'' (0 + 0) 0)" by code_simp
  then have f: "\<forall>j<1. isl (attempt_once ?E ''move the database'' (0 + j) j)" by simp
  have o: "ollama_call ?E (0 + 1) (PROMPT @ ''move the database'') = Inr reply_project"
    by code_simp
  have x: "extract_json ?E reply_project = Some (JObj ?res)" by code_simp
  have ne: "?res \<noteq> []" by simp
  from retry_stops_at_first_nonempty_object [of ?E "''move the database''" 0] m f o x ne
  have "fst (retry_loop ?E ''move the database'' (MAX_RETRIES + 1) 0 0 []) = Some ?res
        \<and> snd (snd (retry_loop ?E ''move the database'' (MAX_RETRIES + 1) 0 0 [])) = 0 + 1 + 1"
    by blast
  with m f0 o x show ?thesis by blast
qed

text \<open>
  The claim as first stated fails: when every answer is \<open>{}\<close>, parsing yields an object
  at the first attempt already, yet all three attempts are made and no result is kept.
\<close>

theorem empty_object_counterexample:
  "ollama_call (test_env [] [Exited 0 ''{}'' [], Exited 0 ''{}'' [], Exited 0 ''{}'' []]) 0
     (PROMPT @ ''call someone'') = Inr ''{}''
   \<and> extract_json (test_env [] [Exited 0 ''{}'' [], Exited 0 ''{}'' [], Exited 0 ''{}'' []]) ''{}''
       = Some (JObj [])
   \<and> retry_loop (test_env [] [Exited 0 ''{}'' [], Exited 0 ''{}'' [], Exited 0 ''{}'' []])
        ''call someone'' (MAX_RETRIES + 1) 0 0 [] = (None, ''invalid json (attempt 2)'', 3)"
  by code_simp

section \<open>Claim C5: the response parser\<close>




section \<open>Claim C6: every fallback attempt fails\<close>

text \<open>
  Claim C6. When no prefix matches and every one of the \<open>MAX_RETRIES + 1\<close> attempts
  fails (the external process fails, or its output does not parse to an object that is
  not empty), the item is marked \<open>needs_review\<close>, the error stored is the failure of the
  last attempt (the message of the exception, or \<open>invalid json (attempt 2)\<close>), the same
  text is logged, and no table of category records changes.
\<close>

theorem all_attempts_fail:
  assumes "pre_route raw = None"
    and "\<forall>j < MAX_RETRIES + 1. isl (attempt_once E raw (ollama_calls st + j) j)"
  shows "let last_err = (case ollama_call E (ollama_calls st + 2) (PROMPT @ raw) of
                           Inl msg \<Rightarrow> msg
                         | Inr out \<Rightarrow> ''invalid json (attempt 2)'')
         in process_item E i raw st =
              Inr (st\<lparr>inbox := map (\<lambda>r. if row_id r = i
                                         then r\<lparr>status := ''needs_review'',
                                                error := Some last_err,
                                                model := Some MODEL\<rparr>
                                         else r) (inbox st),
                      log_events := log_events st @
                        [\<lparr>event = ''needs_review'', inbox_id = Some i,
                          details = take 2000 last_err\<rparr>],
                      ollama_calls := ollama_calls st + 3\<rparr>)"
  using fallback_all_fail [OF assms] .

theorem all_attempts_fail_witness:
  "pre_route ''call someone'' = None
   \<and> isl (attempt_once
              (test_env [] [Exited 0 ''{}'' [], Exited 0 ''42'' [], Exited 1 [] '' boom ''])
              ''call someone'' (ollama_calls (store_of [unprocessed 5 ''call someone'']) + 0) 0)
   \<and> isl (attempt_once
              (test_env [] [Exited 0 ''{}'' [], Exited 0 ''42'' [], Exited 1 [] '' boom ''])
              ''call someone'' (ollama_calls (store_of [unprocessed 5 ''call someone'']) + 1) 1)
   \<and> isl (attempt_once
              (test_env [] [Exited 0 ''{}'' [], Exited 0 ''42'' [], Exited 1 [] '' boom ''])
              ''call someone'' (ollama_calls (store_of [unprocessed 5 ''call someone'']) + 2) 2)
   \<and> process_item (test_env [] [Exited 0 ''{}'' [], Exited 0 ''42'' [], Exited 1 [] '' boom ''])
        5 ''call someone'' (store_of [unprocessed 5 ''call someone'']) =
      Inr \<lparr>inbox = [\<lparr>row_id = 5, raw_text = ''call someone'', status = ''needs_review'',
                     category = None, confidence = None, model = Some MODEL,
                     error = Some ''ollama failed: boom''\<rparr>],
           people = [], projects = [], ideas = [], admin = [],
           log_events = [\<lparr>event = ''needs_review'', inbox_id = Some 5,
                          details = ''ollama failed: boom''\<rparr>],
           ollama_calls = 3\<rparr>"
proof -
  let ?E = "test_env [] [Exited 0 ''{}'' [], Exited 0 ''42'' [], Exited 1 [] '' boom '']"
  let ?st = "store_of [unprocessed 5 ''call someone'']"
  have n: "pre_route ''call someone'' = None" by code_simp
  have f3: "isl (attempt_once ?E ''call someone'' (ollama_calls ?st + 0) 0)"
    "isl (attempt_once ?E ''call someone'' (ollama_calls ?st + 1) 1)"
    "isl (attempt_once ?E ''call someone'' (ollama_calls ?st + 2) 2)"
    by code_simp+
  then have f: "\<forall>j < MAX_RETRIES + 1.
                  isl (attempt_once ?E ''call someone'' (ollama_calls ?st + j) j)"
    by (rule all_attempts)
  have o: "ollama_call ?E (ollama_calls ?st + 2) (PROMPT @ ''call someone'') =
             Inl ''ollama failed: boom''"
    by code_simp
  have "process_item ?E 5 ''call someone'' ?st =
      Inr \<lparr>inbox = [\<lparr>row_id = 5, raw_text = ''call someone'', status = ''needs_review'',
                     category = None, confidence = None, model = Some MODEL,
                     error = Some ''ollama failed: boom''\<rparr>],
           people = [], projects = [], ideas = [], admin = [],
           log_events = [\<lparr>event = ''needs_review'', inbox_id = Some 5,
                          details = ''ollama failed: boom''\<rparr>],
           ollama_calls = 3\<rparr>"
    using all_attempts_fail [OF n f, of 5] o
    by (simp add: Let_def store_of_def unprocessed_def)
  with n f3 show ?thesis by blast
qed

section \<open>Claim C7: confidence gating\<close>

text \<open>
  Claim C7. When no prefix matches and the retry loop accepts a result whose category is
  one of the four and whose confidence, once converted by \<open>float\<close>, is below
  \<open>CONF_THRESHOLD\<close>, the item is marked \<open>needs_review\<close> with that category and that
  confidence, the parsed object is logged, and no category record is inserted.
\<close>

theorem confidence_gate:
  assumes "pre_route raw = None"
    and "retry_loop E raw (MAX_RETRIES + 1) 0 (ollama_calls st) [] = (Some result, err, k)"
    and "obj_get result ''category'' (JStr ''unknown'') = JStr cat"
    and "cat \<in> set [''people'', ''projects'', ''ideas'', ''admin'']"
    and "py_float E (py_or (obj_get result ''confidence'' (JFloat 0)) (JFloat 0)) = Inr conf"
    and "conf < CONF_THRESHOLD"
  shows "process_item E i raw st =
           Inr (st\<lparr>inbox := map (\<lambda>r. if row_id r = i
                                      then r\<lparr>status := ''needs_review'', category := Some cat,
                                             confidence := Some conf,
                                             model := Some MODEL,
                                             error := Some []\<rparr>
                                      else r) (inbox st),
                   log_events := log_events st @
                     [\<lparr>event = ''needs_review'', inbox_id = Some i,
                       details = take 2000 (json_dumps E (JObj result))\<rparr>],
                   ollama_calls := k\<rparr>)"
proof -
  from assms(3,4) have "valid_category (obj_get result ''category'' (JStr ''unknown'')) = Some cat"
    by (auto simp: valid_category_def)
  with assms(1,2,5,6) show ?thesis
    by (simp add: process_item_def fallback_stage_def route_result_def Let_def
        mark_review_def log_event_def update_inbox_def set_needs_review_def)
qed

theorem confidence_gate_witness:
  "pre_route ''move the database'' = None
   \<and> retry_loop (test_env [] [Exited 0 (''Sure: '' @ reply_low_confidence @ '' Done.'') []])
        ''move the database'' (MAX_RETRIES + 1) 0
        (ollama_calls (store_of [unprocessed 6 ''move the database''])) [] =
      (Some [(''category'', JStr ''projects''),
             (''confidence'', JFloat (3602879701896397 / 9007199254740992)),
             (''fields'', JObj [(''name'', JStr ''Migrate DB'')])], [], 1)
   \<and> obj_get [(''category'', JStr ''projects''),
                (''confidence'', JFloat (3602879701896397 / 9007199254740992)),
                (''fields'', JObj [(''name'', JStr ''Migrate DB'')])]
        ''category'' (JStr ''unknown'') = JStr ''projects''
   \<and> ''projects'' \<in> set [''people'', ''projects'', ''ideas'', ''admin'']
   \<and> py_float (test_env [] [Exited 0 (''Sure: '' @ reply_low_confidence @ '' Done.'') []])
        (py_or (obj_get [(''category'', JStr ''projects''),
                         (''confidence'', JFloat (3602879701896397 / 9007199254740992)),
                         (''fields'', JObj [(''name'', JStr ''Migrate DB'')])]
                  ''confidence'' (JFloat 0)) (JFloat 0)) =
      Inr (3602879701896397 / 9007199254740992)
   \<and> (3602879701896397 / 9007199254740992 :: rat) < CONF_THRESHOLD
   \<and> process_item (test_env [] [Exited 0 (''Sure: '' @ reply_low_confidence @ '' Done.'') []])
        6 ''move the database'' (store_of [unprocessed 6 ''move the database'']) =
      Inr \<lparr>inbox = [\<lparr>row_id = 6, raw_text = ''move the database'', status = ''needs_review'',
                     category = Some ''projects'',
                     confidence = Some (3602879701896397 / 9007199254740992),
                     model = Some MODEL, error = Some []\<rparr>],
           people = [], projects = [], ideas = [], admin = [],
           log_events = [\<lparr>event = ''needs_review'', inbox_id = Some 6,
                          details = reply_low_confidence\<rparr>],
           ollama_calls = 1\<rparr>"
proof -
  let ?E = "test_env [] [Exited 0 (''Sure: '' @ reply_low_confidence @ '' Done.'') []]"
  let ?st = "store_of [unprocessed 6 ''move the database'']"
  let ?res = "[(''category'', JStr ''projects''),
               (''confidence'', JFloat (3602879701896397 / 9007199254740992)),
               (''fields'', JObj [(''name'', JStr ''Migrate DB'')])]"
  have n: "pre_route ''move the database'' = None" by code_simp
  have r: "retry_loop ?E ''move the database'' (MAX_RETRIES + 1) 0 (ollama_calls ?st) [] =
             (Some ?res, [], 1)"
    by code_simp
  have c: "obj_get ?res ''category'' (JStr ''unknown'') = JStr ''projects''" by code_simp
  have v: "''projects'' \<in> set [''people'', ''projects'', ''ideas'', ''admin'']" by simp
  have x: "py_float ?E (py_or (obj_get ?res ''confidence'' (JFloat 0)) (JFloat 0)) =
             Inr (3602879701896397 / 9007199254740992)"
    by code_simp
  have l: "(3602879701896397 / 9007199254740992 :: rat) < CONF_THRESHOLD"
    by (simp add: CONF_THRESHOLD_def)
  have d: "canned_dumps (JObj ?res) = reply_low_confidence" by code_simp
  have t: "take 2000 reply_low_confidence = reply_low_confidence" by code_simp
  have "process_item ?E 6 ''move the database'' ?st =
      Inr \<lparr>inbox = [\<lparr>row_id = 6, raw_text = ''move the database'', status = ''needs_review'',
                     category = Some ''projects'',
                     confidence = Some (3602879701896397 / 9007199254740992),
                     model = Some MODEL, error = Some []\<rparr>],
           people = [], projects = [], ideas = [], admin = [],
           log_events = [\<lparr>event = ''needs_review'', inbox_id = Some 6,
                          details = reply_low_confidence\<rparr>],
           ollama_calls = 1\<rparr>"
    using confidence_gate [OF n r c v x l, of 6]
    by (simp add: test_env_def d t store_of_def unprocessed_def)
  with n r c v x l show ?thesis by blast
qed

section \<open>Claim C8: the audit log\<close>

text \<open>
  Claim C8. Whenever the processing of an item completes, exactly one event is appended
  to the log: its \<open>inbox_id\<close> is the id of the item, its \<open>event\<close> is \<open>processed\<close> or
  \<open>needs_review\<close> and is the status written to the rows of the item (the other rows keep
  theirs), and its details are the first 2000 characters of the text of the transition.
  That text is, under a prefix: \<open>prefix <category> but empty\<close> for an empty remainder,
  else \<open>missing person name (prefix)\<close> for a review and \<open>prefix_route -> <category>\<close>
  for a processed item; when every attempt fails: the last error; after an accepted
  result: the result as \<open>json.dumps\<close> gives it, for a review or a processed item, or
  one of the four texts of a missing required field, for a review.
\<close>

theorem audit_log_round_trip:
  assumes "process_item E i raw st = Inr st'"
  shows "\<exists>ev msg. log_events st' = log_events st @ [ev]
           \<and> inbox_id ev = Some i
           \<and> (event ev = ''processed'' \<or> event ev = ''needs_review'')
           \<and> details ev = take 2000 msg
           \<and> length (details ev) \<le> 2000
           \<and> (event ev, msg) \<in>
               (case pre_route raw of
                  Some (cat, clean) \<Rightarrow>
                    if clean = [] then {(''needs_review'', ''prefix '' @ cat @ '' but empty'')}
                    else {(''needs_review'', ''missing person name (prefix)''),
                          (''processed'', ''prefix_route -> '' @ cat)}
                | None \<Rightarrow>
                    (case retry_loop E raw (MAX_RETRIES + 1) 0 (ollama_calls st) [] of
                       (None, last_err, k) \<Rightarrow> {(''needs_review'', last_err)}
                     | (Some result, last_err, k) \<Rightarrow>
                         {(''needs_review'', json_dumps E (JObj result)),
                          (''processed'', json_dumps E (JObj result)),
                          (''needs_review'', ''missing person name''),
                          (''needs_review'', ''missing project name''),
                          (''needs_review'', ''missing idea title''),
                          (''needs_review'', ''missing admin task'')}))
           \<and> map status (inbox st') =
               map (\<lambda>r. if row_id r = i then event ev else status r) (inbox st)"
proof -
  let ?pairs = "case pre_route raw of
                  Some (cat, clean) \<Rightarrow>
                    if clean = [] then {(''needs_review'', ''prefix '' @ cat @ '' but empty'')}
                    else {(''needs_review'', ''missing person name (prefix)''),
                          (''processed'', ''prefix_route -> '' @ cat)}
                | None \<Rightarrow>
                    (case retry_loop E raw (MAX_RETRIES + 1) 0 (ollama_calls st) [] of
                       (None, last_err, k) \<Rightarrow> {(''needs_review'', last_err)}
                     | (Some result, last_err, k) \<Rightarrow>
                         {(''needs_review'', json_dumps E (JObj result)),
                          (''processed'', json_dumps E (JObj result)),
                          (''needs_review'', ''missing person name''),
                          (''needs_review'', ''missing project name''),
                          (''needs_review'', ''missing idea title''),
                          (''needs_review'', ''missing admin task'')})"
  have goal: "\<exists>ev msg. log_events st' = log_events st @ [ev]
           \<and> inbox_id ev = Some i
           \<and> (event ev = ''processed'' \<or> event ev = ''needs_review'')
           \<and> details ev = take 2000 msg
           \<and> length (details ev) \<le> 2000
           \<and> (event ev, msg) \<in> ?pairs
           \<and> map status (inbox st') =
               map (\<lambda>r. if row_id r = i then event ev else status r) (inbox st)"
    if log: "log_events st' = log_events st @ [\<lparr>event = s, inbox_id = Some i, details = take 2000 msg\<rparr>]"
      and s: "s = ''processed'' \<or> s = ''needs_review''"
      and p: "(s, msg) \<in> ?pairs"
      and m: "map status (inbox st') = map (\<lambda>r. if row_id r = i then s else status r) (inbox st)"
    for s msg
  proof -
    let ?ev = "\<lparr>event = s, inbox_id = Some i, details = take 2000 msg\<rparr>"
    have "log_events st' = log_events st @ [?ev]" by (rule log)
    moreover have "inbox_id ?ev = Some i" by simp
    moreover from s have "event ?ev = ''processed'' \<or> event ?ev = ''needs_review''" by simp
    moreover have "details ?ev = take 2000 msg" by simp
    moreover have "length (details ?ev) \<le> 2000" by simp
    moreover from p have "(event ?ev, msg) \<in> ?pairs" by simp
    moreover from m have "map status (inbox st') =
               map (\<lambda>r. if row_id r = i then event ?ev else status r) (inbox st)" by simp
    ultimately show ?thesis by blast
  qed
  from process_item_shape [OF assms] show ?thesis
  proof (elim disjE exE conjE)
    fix cat clean
    assume pr: "pre_route raw = Some (cat, clean)"
      and sh: "item_shape E i (prefix_texts cat clean) (''prefix_route -> '' @ cat) st st'"
    show ?thesis
    proof (cases "clean = []")
      case True
      with pr assms have st': "st' = mark_review i cat 1 ''prefix'' ''empty after prefix''
                                       (''prefix '' @ cat @ '' but empty'') st"
        by (simp add: process_item_def prefix_stage_def)
      have l: "log_events st' = log_events st @
          [\<lparr>event = ''needs_review'', inbox_id = Some i,
            details = take 2000 (''prefix '' @ cat @ '' but empty'')\<rparr>]"
        unfolding st' by (rule log_marks)
      have m: "map status (inbox st') =
          map (\<lambda>r. if row_id r = i then ''needs_review'' else status r) (inbox st)"
        unfolding st' by (rule status_marks)
      from True pr have p: "(''needs_review'', ''prefix '' @ cat @ '' but empty'') \<in> ?pairs"
        by simp
      show ?thesis by (rule goal [OF l _ p m]) simp
    next
      case False
      from sh show ?thesis unfolding item_shape_def
      proof (elim disjE exE conjE)
        fix c conf mdl err det
        assume d: "det \<in> prefix_texts cat clean"
          and st': "st' = mark_review i c conf mdl err det st"
        have l: "log_events st' = log_events st @
            [\<lparr>event = ''needs_review'', inbox_id = Some i, details = take 2000 det\<rparr>]"
          unfolding st' by (rule log_marks)
        have m: "map status (inbox st') =
            map (\<lambda>r. if row_id r = i then ''needs_review'' else status r) (inbox st)"
          unfolding st' by (rule status_marks)
        from d False have "det = ''missing person name (prefix)''"
          by (simp add: prefix_texts_def)
        with pr False have p: "(''needs_review'', det) \<in> ?pairs" by simp
        show ?thesis by (rule goal [OF l _ p m]) simp
      next
        fix rec c conf mdl
        assume st': "st' = mark_processed i c conf mdl (''prefix_route -> '' @ cat)
                             (insert_record rec st)"
        have l: "log_events st' = log_events st @
            [\<lparr>event = ''processed'', inbox_id = Some i,
              details = take 2000 (''prefix_route -> '' @ cat)\<rparr>]"
          unfolding st' by (simp only: log_marks insert_record_other)
        have m: "map status (inbox st') =
            map (\<lambda>r. if row_id r = i then ''processed'' else status r) (inbox st)"
          unfolding st' by (simp only: status_marks insert_record_other)
        from pr False have p: "(''processed'', ''prefix_route -> '' @ cat) \<in> ?pairs" by simp
        show ?thesis by (rule goal [OF l _ p m]) simp
      qed
    qed
  next
    fix err k
    assume pr: "pre_route raw = None"
      and r: "retry_loop E raw (MAX_RETRIES + 1) 0 (ollama_calls st) [] = (None, err, k)"
      and st': "st' = log_event ''needs_review'' (Some i) err
                        (update_inbox i (set_failed err MODEL) (st\<lparr>ollama_calls := k\<rparr>))"
    from pr r have p: "(''needs_review'', err) \<in> ?pairs" by simp
    from st' have l: "log_events st' =
        log_events st @ [\<lparr>event = ''needs_review'', inbox_id = Some i, details = take 2000 err\<rparr>]"
      by (simp add: log_event_def update_inbox_def)
    from st' have m: "map status (inbox st') =
        map (\<lambda>r. if row_id r = i then ''needs_review'' else status r) (inbox st)"
      by (simp add: status_marks)
    show ?thesis by (rule goal [OF l _ p m]) simp
  next
    fix result err k
    assume pr: "pre_route raw = None"
      and r: "retry_loop E raw (MAX_RETRIES + 1) 0 (ollama_calls st) [] = (Some result, err, k)"
      and sh: "item_shape E i (review_texts E result) (take 2000 (json_dumps E (JObj result)))
                (st\<lparr>ollama_calls := k\<rparr>) st'"
    let ?dump = "json_dumps E (JObj result)"
    have tt: "take 2000 (take 2000 ?dump) = take 2000 ?dump" by simp
    from sh show ?thesis unfolding item_shape_def
    proof (elim disjE exE conjE)
      fix c conf mdl er det
      assume d: "det \<in> review_texts E result"
        and st': "st' = mark_review i c conf mdl er det (st\<lparr>ollama_calls := k\<rparr>)"
      from st' have l: "log_events st' =
          log_events st @ [\<lparr>event = ''needs_review'', inbox_id = Some i, details = take 2000 det\<rparr>]"
        and m: "map status (inbox st') =
          map (\<lambda>r. if row_id r = i then ''needs_review'' else status r) (inbox st)"
        by (simp_all add: log_marks status_marks)
      from d consider "det = take 2000 ?dump" | "det \<in> missing_texts"
        by (auto simp: review_texts_def)
      then show ?thesis
      proof cases
        case 1
        with l tt have l': "log_events st' = log_events st @
            [\<lparr>event = ''needs_review'', inbox_id = Some i, details = take 2000 ?dump\<rparr>]"
          by (simp only:)
        from pr r have p: "(''needs_review'', ?dump) \<in> ?pairs" by simp
        show ?thesis by (rule goal [OF l' _ p m]) simp
      next
        case 2
        with pr r have p: "(''needs_review'', det) \<in> ?pairs"
          by (auto simp: missing_texts_def)
        show ?thesis by (rule goal [OF l _ p m]) simp
      qed
    next
      fix rec c conf mdl
      assume st': "st' = mark_processed i c conf mdl (take 2000 ?dump)
                           (insert_record rec (st\<lparr>ollama_calls := k\<rparr>))"
      from st' have "log_events st' = log_events st @
          [\<lparr>event = ''processed'', inbox_id = Some i, details = take 2000 (take 2000 ?dump)\<rparr>]"
        by (simp add: log_marks)
      with tt have l: "log_events st' = log_events st @
          [\<lparr>event = ''processed'', inbox_id = Some i, details = take 2000 ?dump\<rparr>]"
        by (simp only:)
      from st' have m: "map status (inbox st') =
          map (\<lambda>r. if row_id r = i then ''processed'' else status r) (inbox st)"
        by (simp add: status_marks)
      from pr r have p: "(''processed'', ?dump) \<in> ?pairs" by simp
      show ?thesis by (rule goal [OF l _ p m]) simp
    qed
  qed
qed

theorem audit_log_round_trip_witness:
  "process_item
     (test_env [] [Exited 1 [] (replicate 2100 (CHR ''x'')),
                   Exited 1 [] (replicate 2100 (CHR ''x'')),
                   Exited 1 [] (replicate 2100 (CHR ''x''))])
     4 ''call someone'' (store_of [unprocessed 4 ''call someone'']) =
   Inr \<lparr>inbox = [\<lparr>row_id = 4, raw_text = ''call someone'', status = ''needs_review'',
                  category = None, confidence = None, model = Some MODEL,
                  error = Some (''ollama failed: '' @ replicate 2100 (CHR ''x''))\<rparr>],
        people = [], projects = [], ideas = [], admin = [],
        log_events = [\<lparr>event = ''needs_review'', inbox_id = Some 4,
                       details = ''ollama failed: '' @ replicate 1985 (CHR ''x'')\<rparr>],
        ollama_calls = 3\<rparr>
   \<and> pre_route ''call someone'' = None
   \<and> retry_loop
        (test_env [] [Exited 1 [] (replicate 2100 (CHR ''x'')),
                      Exited 1 [] (replicate 2100 (CHR ''x'')),
                      Exited 1 [] (replicate 2100 (CHR ''x''))])
        ''call someone'' (MAX_RETRIES + 1) 0
        (ollama_calls (store_of [unprocessed 4 ''call someone''])) [] =
      (None, ''ollama failed: '' @ replicate 2100 (CHR ''x''), 3)
   \<and> (\<exists>ev. log_events
               \<lparr>inbox = [\<lparr>row_id = 4, raw_text = ''call someone'', status = ''needs_review'',
                            category = None, confidence = None, model = Some MODEL,
                            error = Some (''ollama failed: '' @ replicate 2100 (CHR ''x''))\<rparr>],
                 people = [], projects = [], ideas = [], admin = [],
                 log_events = [\<lparr>event = ''needs_review'', inbox_id = Some 4,
                                details = ''ollama failed: '' @ replicate 1985 (CHR ''x'')\<rparr>],
                 ollama_calls = 3\<rparr> =
             log_events (store_of [unprocessed 4 ''call someone'']) @ [ev]
           \<and> inbox_id ev = Some 4
           \<and> event ev = ''needs_review''
           \<and> details ev = take 2000 (''ollama failed: '' @ replicate 2100 (CHR ''x''))
           \<and> details ev = ''ollama failed: '' @ replicate 1985 (CHR ''x'')
           \<and> length (details ev) = 2000)"
proof -
  let ?long = "replicate 2100 (CHR ''x'')"
  let ?E = "test_env [] [Exited 1 [] ?long, Exited 1 [] ?long, Exited 1 [] ?long]"
  let ?st = "store_of [unprocessed 4 ''call someone'']"
  let ?st' = "\<lparr>inbox = [\<lparr>row_id = 4, raw_text = ''call someone'', status = ''needs_review'',
                         category = None, confidence = None, model = Some MODEL,
                         error = Some (''ollama failed: '' @ replicate 2100 (CHR ''x''))\<rparr>],
               people = [], projects = [], ideas = [], admin = [],
               log_events = [\<lparr>event = ''needs_review'', inbox_id = Some 4,
                              details = ''ollama failed: '' @ replicate 1985 (CHR ''x'')\<rparr>],
               ollama_calls = 3\<rparr>"
  let ?msg = "''ollama failed: '' @ replicate 2100 (CHR ''x'')"
  have x: "\<not> is_space (CHR ''x'')" by code_simp
  have c: "take 2000 ?msg = ''ollama failed: '' @ replicate 1985 (CHR ''x'')"
    by (simp add: replicate_add [symmetric] del: replicate.simps)
  have len: "length (take 2000 ?msg) = 2000" by simp
  have o: "ollama_call ?E k (PROMPT @ ''call someone'') = Inl ?msg" if "k < 3" for k
  proof -
    from that have "k = 0 \<or> k = 1 \<or> k = 2" by auto
    then have "subprocess_run ?E k (PROMPT @ ''call someone'') = Exited 1 [] ?long"
      by (auto simp: test_env_def scripted_def)
    then show ?thesis
      by (simp only: ollama_call_def proc.case strip_replicate [OF x]) simp
  qed
  have a: "isl (attempt_once ?E ''call someone'' k j)" if "k < 3" for k j
    using o [OF that] by (simp add: attempt_once_def)
  have z: "ollama_calls ?st = 0" by (simp add: store_of_def)
  have f: "\<forall>j < MAX_RETRIES + 1. isl (attempt_once ?E ''call someone'' (ollama_calls ?st + j) j)"
    unfolding z by (rule all_attempts) (simp_all add: a)
  have n: "pre_route ''call someone'' = None" by code_simp
  have o2: "ollama_call ?E (ollama_calls ?st + 2) (PROMPT @ ''call someone'') = Inl ?msg"
    unfolding z by (rule o) simp
  have r: "retry_loop ?E ''call someone'' (MAX_RETRIES + 1) 0 (ollama_calls ?st) [] =
             (None, ?msg, 3)"
    using retry_loop_fails_thrice [OF f] o2 z by (simp only: sum.case add_0)
  have h: "process_item ?E 4 ''call someone'' ?st = Inr ?st'"
    using fallback_all_fail [OF n f, of 4] o2 c
    by (simp add: Let_def store_of_def unprocessed_def del: replicate.simps)
  from audit_log_round_trip [OF h] obtain ev msg where
    l: "log_events ?st' = log_events ?st @ [ev]" and i: "inbox_id ev = Some 4"
    and d: "details ev = take 2000 msg"
    and p: "(event ev, msg) \<in>
               (case pre_route ''call someone'' of
                  Some (cat, clean) \<Rightarrow>
                    if clean = [] then {(''needs_review'', ''prefix '' @ cat @ '' but empty'')}
                    else {(''needs_review'', ''missing person name (prefix)''),
                          (''processed'', ''prefix_route -> '' @ cat)}
                | None \<Rightarrow>
                    (case retry_loop ?E ''call someone'' (MAX_RETRIES + 1) 0 (ollama_calls ?st) [] of
                       (None, last_err, k) \<Rightarrow> {(''needs_review'', last_err)}
                     | (Some result, last_err, k) \<Rightarrow>
                         {(''needs_review'', json_dumps ?E (JObj result)),
                          (''processed'', json_dumps ?E (JObj result)),
                          (''needs_review'', ''missing person name''),
                          (''needs_review'', ''missing project name''),
                          (''needs_review'', ''missing idea title''),
                          (''needs_review'', ''missing admin task'')}))"
    by blast
  from p have "(event ev, msg) \<in> {(''needs_review'', ?msg)}"
    unfolding n r by (simp only: option.case prod.case)
  then have e: "event ev = ''needs_review''" and m: "msg = ?msg"
    by (simp_all del: replicate.simps)
  from d m have d1: "details ev = take 2000 ?msg" by (simp only:)
  with c have d2: "details ev = ''ollama failed: '' @ replicate 1985 (CHR ''x'')" by (simp only:)
  from d1 len have d3: "length (details ev) = 2000" by (simp only:)
  from l i e d1 d2 d3 have "\<exists>ev. log_events ?st' = log_events ?st @ [ev]
           \<and> inbox_id ev = Some 4
           \<and> event ev = ''needs_review''
           \<and> details ev = take 2000 ?msg
           \<and> details ev = ''ollama failed: '' @ replicate 1985 (CHR ''x'')
           \<and> length (details ev) = 2000"
    by (intro exI [of _ ev] conjI)
  with h n r show ?thesis by (intro conjI)
qed

section \<open>Claim C9: the alias of a person under a prefix\<close>

text \<open>
  Claim C9. For an item with a people prefix (\<open>person:\<close> or \<open>people:\<close>, in any case)
  whose trimmed remainder is \<open>mom\<close>, and an alias table that maps \<open>mom\<close> to
  \<open>Jane Doe\<close>, processing inserts one people record with the name \<open>Jane Doe\<close> and the
  whole raw text, prefix included, as its follow-up, marks the item processed and logs it.
\<close>

theorem person_alias:
  assumes pfx: "pfx = ''person:'' \<or> pfx = ''people:''"
    and low: "lower (take (length pfx) raw) = pfx"
    and rem: "strip (drop (length pfx) raw) = ''mom''"
    and al: "ALIASES E ''mom'' = Some (JStr ''Jane Doe'')"
  shows "process_item E i raw st =
           Inr (st\<lparr>inbox := map (\<lambda>r. if row_id r = i
                                      then r\<lparr>status := ''processed'', category := Some ''people'',
                                             confidence := Some 1, model := Some ''prefix'',
                                             error := Some []\<rparr>
                                      else r) (inbox st),
                   people := people st @
                     [\<lparr>p_name = SText ''Jane Doe'', p_context = SText [],
                       p_follow_up = SText raw, p_last_contact = SText []\<rparr>],
                   log_events := log_events st @
                     [\<lparr>event = ''processed'', inbox_id = Some i,
                       details = ''prefix_route -> people''\<rparr>]\<rparr>)"
proof -
  from pfx have "(pfx, ''people'') \<in> set prefix_table"
    by (auto simp: prefix_table_def)
  from pre_route_table [OF this low] rem
  have route: "pre_route raw = Some (''people'', ''mom'')" by simp
  have name: "prefix_person_name E ''mom'' = JStr ''Jane Doe''"
    by (simp add: prefix_person_name_def strip_mom lower_mom al)
  show ?thesis
    by (simp add: process_item_def route prefix_stage_def prefix_insert_def name
        mark_processed_def log_event_def update_inbox_def set_processed_def
        insert_record.simps)
qed

theorem person_alias_witness:
  "(''person:'' = ''person:'' \<or> ''person:'' = ''people:'')
   \<and> lower (take (length ''person:'') ''Person:  mom '') = ''person:''
   \<and> strip (drop (length ''person:'') ''Person:  mom '') = ''mom''
   \<and> ALIASES (test_env [(''Mom'', JStr ''Jane Doe'')] []) ''mom'' = Some (JStr ''Jane Doe'')
   \<and> process_item (test_env [(''Mom'', JStr ''Jane Doe'')] []) 7 ''Person:  mom ''
        (store_of [unprocessed 7 ''Person:  mom '']) =
      Inr \<lparr>inbox = [\<lparr>row_id = 7, raw_text = ''Person:  mom '', status = ''processed'',
                     category = Some ''people'', confidence = Some 1, model = Some ''prefix'',
                     error = Some []\<rparr>],
           people = [\<lparr>p_name = SText ''Jane Doe'', p_context = SText [],
                      p_follow_up = SText ''Person:  mom '', p_last_contact = SText []\<rparr>],
           projects = [], ideas = [], admin = [],
           log_events = [\<lparr>event = ''processed'', inbox_id = Some 7,
                          details = ''prefix_route -> people''\<rparr>],
           ollama_calls = 0\<rparr>"
proof -
  have 1: "''person:'' = ''person:'' \<or> ''person:'' = ''people:''" by simp
  have 2: "lower (take (length ''person:'') ''Person:  mom '') = ''person:''"
    by code_simp
  have 3: "strip (drop (length ''person:'') ''Person:  mom '') = ''mom''"
    by code_simp
  have 4: "ALIASES (test_env [(''Mom'', JStr ''Jane Doe'')] []) ''mom'' = Some (JStr ''Jane Doe'')"
    by code_simp
  show ?thesis
    using person_alias [OF 1 2 3 4, of 7 "store_of [unprocessed 7 ''Person:  mom '']"] 2 3 4
    by (simp add: store_of_def unprocessed_def)
qed

section \<open>Claim C10: what the failed fallback writes\<close>

text \<open>
  Claim C10. When the fallback stage fails on all attempts, the update of the item writes
  its status, error and model only: the category and the confidence of every row stay as
  they were. In every other case in which the processing of the item completes, the
  update writes the status, category, confidence, model and error of the item.
\<close>

theorem failed_fallback_frame:
  assumes "process_item E i raw st = Inr st'"
  shows "if pre_route raw = None
            \<and> (\<forall>j < MAX_RETRIES + 1. isl (attempt_once E raw (ollama_calls st + j) j))
         then (\<exists>err. inbox st' =
                  map (\<lambda>r. if row_id r = i
                           then r\<lparr>status := ''needs_review'', error := Some err,
                                  model := Some MODEL\<rparr>
                           else r) (inbox st))
              \<and> map category (inbox st') = map category (inbox st)
              \<and> map confidence (inbox st') = map confidence (inbox st)
         else (\<exists>s c x m e. inbox st' =
                  map (\<lambda>r. if row_id r = i
                           then r\<lparr>status := s, category := Some c, confidence := Some x,
                                  model := Some m, error := Some e\<rparr>
                           else r) (inbox st))"
proof (cases "pre_route raw = None
            \<and> (\<forall>j < MAX_RETRIES + 1. isl (attempt_once E raw (ollama_calls st + j) j))")
  case True
  from fallback_all_fail [of raw E st i] True assms
  have "\<exists>err. inbox st' =
          map (\<lambda>r. if row_id r = i
                   then r\<lparr>status := ''needs_review'', error := Some err, model := Some MODEL\<rparr>
                   else r) (inbox st)"
    by (auto simp: Let_def)
  moreover from this have "map category (inbox st') = map category (inbox st)"
    and "map confidence (inbox st') = map confidence (inbox st)"
    by (auto intro: map_cong)
  ultimately have
    "(\<exists>err. inbox st' =
        map (\<lambda>r. if row_id r = i
                 then r\<lparr>status := ''needs_review'', error := Some err, model := Some MODEL\<rparr>
                 else r) (inbox st))
     \<and> map category (inbox st') = map category (inbox st)
     \<and> map confidence (inbox st') = map confidence (inbox st)"
    by blast
  then show ?thesis by (subst if_P [OF True])
next
  case False
  have "\<exists>k D p. item_shape E i D p (st\<lparr>ollama_calls := k\<rparr>) st'"
    using process_item_shape [OF assms]
  proof (elim disjE exE conjE)
    fix cat clean
    assume "item_shape E i (prefix_texts cat clean) (''prefix_route -> '' @ cat) st st'"
    then have "item_shape E i (prefix_texts cat clean) (''prefix_route -> '' @ cat)
                 (st\<lparr>ollama_calls := ollama_calls st\<rparr>) st'"
      by simp
    then show ?thesis by blast
  next
    fix err k
    assume n: "pre_route raw = None"
      and r: "retry_loop E raw (MAX_RETRIES + 1) 0 (ollama_calls st) [] = (None, err, k)"
    from r have "fst (retry_loop E raw (MAX_RETRIES + 1) 0 (ollama_calls st) []) = None" by simp
    from retry_loop_None [OF this] n False show ?thesis by simp
  next
    fix result err k
    assume "item_shape E i (review_texts E result) (take 2000 (json_dumps E (JObj result)))
              (st\<lparr>ollama_calls := k\<rparr>) st'"
    then show ?thesis by blast
  qed
  then obtain k D p where "item_shape E i D p (st\<lparr>ollama_calls := k\<rparr>) st'" by blast
  then have "\<exists>s c x m e. inbox st' =
                  map (\<lambda>r. if row_id r = i
                           then r\<lparr>status := s, category := Some c, confidence := Some x,
                                  model := Some m, error := Some e\<rparr>
                           else r) (inbox st)"
    unfolding item_shape_def
  proof (elim disjE exE conjE)
    fix cat conf mdl err det
    assume "st' = mark_review i cat conf mdl err det (st\<lparr>ollama_calls := k\<rparr>)"
    then have "inbox st' =
                  map (\<lambda>r. if row_id r = i
                           then r\<lparr>status := ''needs_review'', category := Some cat,
                                  confidence := Some conf, model := Some mdl, error := Some err\<rparr>
                           else r) (inbox st)"
      by (simp add: mark_review_def log_event_def update_inbox_def set_needs_review_def)
    then show ?thesis by blast
  next
    fix rec cat conf mdl
    assume "st' = mark_processed i cat conf mdl p (insert_record rec (st\<lparr>ollama_calls := k\<rparr>))"
    then have "inbox st' =
                  map (\<lambda>r. if row_id r = i
                           then r\<lparr>status := ''processed'', category := Some cat,
                                  confidence := Some conf, model := Some mdl, error := Some []\<rparr>
                           else r) (inbox st)"
      by (simp add: mark_processed_def log_event_def update_inbox_def set_processed_def)
    then show ?thesis by blast
  qed
  then show ?thesis by (subst if_not_P [OF False])
qed

theorem failed_fallback_frame_witness:
  "\<exists>st'. process_item
            (test_env [] [RunRaised ''ollama: not found'', Exited 2 [] ''no such model'',
                          Exited 0 ''not json'' []])
            4 ''call someone''
            (store_of [\<lparr>row_id = 4, raw_text = ''call someone'', status = ''unprocessed'',
                         category = Some ''ideas'', confidence = Some (1 / 2),
                         model = None, error = None\<rparr>]) = Inr st'
     \<and> (\<exists>err. inbox st' =
           map (\<lambda>r. if row_id r = 4
                    then r\<lparr>status := ''needs_review'', error := Some err, model := Some MODEL\<rparr>
                    else r)
             [\<lparr>row_id = 4, raw_text = ''call someone'', status = ''unprocessed'',
               category = Some ''ideas'', confidence = Some (1 / 2),
               model = None, error = None\<rparr>])
     \<and> map category (inbox st') = [Some ''ideas'']
     \<and> map confidence (inbox st') = [Some (1 / 2)]"
proof -
  let ?E = "test_env [] [RunRaised ''ollama: not found'', Exited 2 [] ''no such model'',
                         Exited 0 ''not json'' []]"
  let ?row = "\<lparr>row_id = 4, raw_text = ''call someone'', status = ''unprocessed'',
               category = Some ''ideas'', confidence = Some (1 / 2),
               model = None, error = None\<rparr>"
  let ?st = "store_of [?row]"
  have h: "process_item ?E 4 ''call someone'' ?st =
           Inr \<lparr>inbox = [\<lparr>row_id = 4, raw_text = ''call someone'', status = ''needs_review'',
                          category = Some ''ideas'', confidence = Some (1 / 2),
                          model = Some MODEL, error = Some ''invalid json (attempt 2)''\<rparr>],
                people = [], projects = [], ideas = [], admin = [],
                log_events = [\<lparr>event = ''needs_review'', inbox_id = Some 4,
                               details = ''invalid json (attempt 2)''\<rparr>],
                ollama_calls = 3\<rparr>"
    by code_simp
  have n: "pre_route ''call someone'' = None" by code_simp
  have "isl (attempt_once ?E ''call someone'' (ollama_calls ?st + 0) 0)"
    and "isl (attempt_once ?E ''call someone'' (ollama_calls ?st + 1) 1)"
    and "isl (attempt_once ?E ''call someone'' (ollama_calls ?st + 2) 2)"
    by code_simp+
  then have f: "\<forall>j < MAX_RETRIES + 1.
                  isl (attempt_once ?E ''call someone'' (ollama_calls ?st + j) j)"
    by (rule all_attempts)
  from n f have c: "pre_route ''call someone'' = None
      \<and> (\<forall>j < MAX_RETRIES + 1. isl (attempt_once ?E ''call someone'' (ollama_calls ?st + j) j))"
    by blast
  from failed_fallback_frame [OF h] have
    "(\<exists>err. inbox \<lparr>inbox = [\<lparr>row_id = 4, raw_text = ''call someone'', status = ''needs_review'',
                          category = Some ''ideas'', confidence = Some (1 / 2),
                          model = Some MODEL, error = Some ''invalid json (attempt 2)''\<rparr>],
                people = [], projects = [], ideas = [], admin = [],
                log_events = [\<lparr>event = ''needs_review'', inbox_id = Some 4,
                               details = ''invalid json (attempt 2)''\<rparr>],
                ollama_calls = 3\<rparr> =
        map (\<lambda>r. if row_id r = 4
                 then r\<lparr>status := ''needs_review'', error := Some err, model := Some MODEL\<rparr>
                 else r) (inbox ?st))"
    by (subst (asm) if_P [OF c]) blast
  then have "\<exists>err. inbox \<lparr>inbox = [\<lparr>row_id = 4, raw_text = ''call someone'', status = ''needs_review'',
                          category = Some ''ideas'', confidence = Some (1 / 2),
                          model = Some MODEL, error = Some ''invalid json (attempt 2)''\<rparr>],
                people = [], projects = [], ideas = [], admin = [],
                log_events = [\<lparr>event = ''needs_review'', inbox_id = Some 4,
                               details = ''invalid json (attempt 2)''\<rparr>],
                ollama_calls = 3\<rparr> =
        map (\<lambda>r. if row_id r = 4
                 then r\<lparr>status := ''needs_review'', error := Some err, model := Some MODEL\<rparr>
                 else r) [?row]"
    by (simp add: store_of_def)
  with h show ?thesis by simp
qed

end
